theory Spec2Isabelle
  imports Complex_Main "HOL-Library.Word"
begin

section \<open>Values of the host language\<close>

text \<open>
  The program is \<^verbatim>\<open>src/utils/audioUtils.ts\<close>. Its values are modelled as follows.
  \<^item> A byte of an \<^verbatim>\<open>ArrayBuffer\<close> is an \<open>8 word\<close>.
  \<^item> A string is a list of UTF-16 code units, each a \<open>16 word\<close>; \<open>js_str\<close> writes a
    literal of the source.
  \<^item> A \<^verbatim>\<open>number\<close> is an IEEE 754 double: \<open>NaN\<close>, an infinity, or a finite value given
    by its sign and its magnitude. The operations \<open>+\<close>, \<open>*\<close> and \<open>/\<close> round their exact
    result to the nearest double, ties to even, as the source's do.
  \<^item> An exception is a value of \<open>error\<close>; a function that can throw returns a sum.
\<close>

type_synonym u8 = "8 word"
type_synonym code_unit = "16 word"
type_synonym js_string = "code_unit list"

datatype error = InvalidCharacterError | RangeError

definition js_str :: "string \<Rightarrow> js_string" where
  "js_str cs = map (\<lambda>c. of_nat (of_char c)) cs"

subsection \<open>Numbers\<close>

text \<open>
  \<open>Infinity True\<close> is \<open>-Infinity\<close>. \<open>Fin s m\<close> is the finite double of magnitude \<open>m \<ge> 0\<close>,
  negative when \<open>s\<close> holds; \<open>Fin True 0\<close> is \<open>-0\<close>. \<open>lit n\<close> is the number that an integer
  literal of the source, the length of an array or a code unit denotes.
\<close>

datatype number = NaN | Infinity bool | Fin bool rat

definition lit :: "nat \<Rightarrow> number" where
  "lit n = Fin False (of_nat n)"

text \<open>
  Rounding to the nearest double. A magnitude \<open>a > 0\<close> lies in the binade
  \<open>2 ^ e \<le> a < 2 ^ (e + 1)\<close>; the doubles of that binade are the multiples of
  \<open>2 ^ (e - 52)\<close>, and below \<open>2 ^ - 1022\<close> (the subnormal range) the multiples of
  \<open>2 ^ - 1074\<close>. The magnitude is rounded to the nearest multiple, a tie going to the even
  one; a result of \<open>2 ^ 1024\<close> or more overflows to an infinity.
\<close>

fun bit_length :: "nat \<Rightarrow> nat" where
  "bit_length n = (if n = 0 then 0 else Suc (bit_length (n div 2)))"

declare bit_length.simps [simp del]

definition pow2 :: "int \<Rightarrow> rat" where
  "pow2 k = (if 0 \<le> k then 2 ^ nat k else 1 / 2 ^ nat (- k))"

definition binade :: "rat \<Rightarrow> int" where
  "binade a =
     (if 1 \<le> a then int (bit_length (nat \<lfloor>a\<rfloor>)) - 1
      else - int (bit_length (nat \<lceil>1 / a\<rceil> - 1)))"

definition round_half_even :: "rat \<Rightarrow> int" where
  "round_half_even x =
     (let f = \<lfloor>x\<rfloor>; d = x - of_int f
      in if d < 1 / 2 then f else if 1 / 2 < d then f + 1
         else if even f then f else f + 1)"

definition round_magnitude :: "rat \<Rightarrow> rat option" where
  "round_magnitude a =
     (if a = 0 then Some 0
      else (let e = max (binade a) (- 1022);
                q = pow2 (e - 52);
                r = of_int (round_half_even (a / q)) * q
            in if pow2 1024 \<le> r then None else Some r))"

definition fl :: "bool \<Rightarrow> rat \<Rightarrow> number" where
  "fl s a = (case round_magnitude a of None \<Rightarrow> Infinity s | Some r \<Rightarrow> Fin s r)"

definition signed :: "bool \<Rightarrow> rat \<Rightarrow> rat" where
  "signed s m = (if s then - m else m)"

text \<open>The operators \<^verbatim>\<open>+\<close>, \<^verbatim>\<open>*\<close> and \<^verbatim>\<open>/\<close> of the source on numbers. An exact sum of zero is
  \<open>-0\<close> only when both summands are \<open>-0\<close>.\<close>

fun js_add :: "number \<Rightarrow> number \<Rightarrow> number" where
  "js_add NaN y = NaN"
| "js_add x NaN = NaN"
| "js_add (Infinity s) (Infinity t) = (if s = t then Infinity s else NaN)"
| "js_add (Infinity s) (Fin t y) = Infinity s"
| "js_add (Fin s x) (Infinity t) = Infinity t"
| "js_add (Fin s x) (Fin t y) =
     (let v = signed s x + signed t y
      in if v = 0 then Fin (s \<and> t) 0 else fl (v < 0) \<bar>v\<bar>)"

fun js_mul :: "number \<Rightarrow> number \<Rightarrow> number" where
  "js_mul NaN y = NaN"
| "js_mul x NaN = NaN"
| "js_mul (Infinity s) (Infinity t) = Infinity (s \<noteq> t)"
| "js_mul (Infinity s) (Fin t y) = (if y = 0 then NaN else Infinity (s \<noteq> t))"
| "js_mul (Fin s x) (Infinity t) = (if x = 0 then NaN else Infinity (s \<noteq> t))"
| "js_mul (Fin s x) (Fin t y) = fl (s \<noteq> t) (x * y)"

fun js_div :: "number \<Rightarrow> number \<Rightarrow> number" where
  "js_div NaN y = NaN"
| "js_div x NaN = NaN"
| "js_div (Infinity s) (Infinity t) = NaN"
| "js_div (Infinity s) (Fin t y) = Infinity (s \<noteq> t)"
| "js_div (Fin s x) (Infinity t) = Fin (s \<noteq> t) 0"
| "js_div (Fin s x) (Fin t y) =
     (if y = 0 then (if x = 0 then NaN else Infinity (s \<noteq> t))
      else fl (s \<noteq> t) (x / y))"

instantiation number :: "{plus, times, inverse}"
begin

definition plus_number :: "number \<Rightarrow> number \<Rightarrow> number" where
  "plus_number x y = js_add x y"

definition times_number :: "number \<Rightarrow> number \<Rightarrow> number" where
  "times_number x y = js_mul x y"

definition divide_number :: "number \<Rightarrow> number \<Rightarrow> number" where
  "divide_number x y = js_div x y"

definition inverse_number :: "number \<Rightarrow> number" where
  "inverse_number x = js_div (lit 1) x"

instance ..

end

text \<open>\<^verbatim>\<open>String.prototype.charCodeAt\<close>: the code unit at an index, \<open>NaN\<close> past the end.\<close>

definition charCodeAt :: "js_string \<Rightarrow> nat \<Rightarrow> number" where
  "charCodeAt str i = (if i < length str then lit (unat (str ! i)) else NaN)"

subsection \<open>Conversion of numbers to unsigned integers\<close>

text \<open>ECMAScript's \<open>ToUint8\<close>, \<open>ToUint16\<close> and \<open>ToUint32\<close>: \<open>NaN\<close> and the infinities convert
  to 0; a finite number is truncated towards zero and reduced modulo \<open>2 ^ w\<close>.\<close>

definition js_truncate :: "number \<Rightarrow> int" where
  "js_truncate x =
     (case x of NaN \<Rightarrow> 0 | Infinity s \<Rightarrow> 0
      | Fin s m \<Rightarrow> (if s then - \<lfloor>m\<rfloor> else \<lfloor>m\<rfloor>))"

definition ToUint8 :: "number \<Rightarrow> u8" where
  "ToUint8 x = word_of_int (js_truncate x)"

definition ToUint16 :: "number \<Rightarrow> 16 word" where
  "ToUint16 x = word_of_int (js_truncate x)"

definition ToUint32 :: "number \<Rightarrow> 32 word" where
  "ToUint32 x = word_of_int (js_truncate x)"

text \<open>The bytes of a 16-bit and of a 32-bit value, least significant byte first.\<close>

definition le16 :: "16 word \<Rightarrow> u8 list" where
  "le16 w = [ucast w, ucast (drop_bit 8 w)]"

definition le32 :: "32 word \<Rightarrow> u8 list" where
  "le32 w = [ucast w, ucast (drop_bit 8 w), ucast (drop_bit 16 w), ucast (drop_bit 24 w)]"

section \<open>The store of byte buffers\<close>

text \<open>
  The source allocates buffers and writes into them in place. The store is the list of all
  buffers allocated so far; the address of a buffer is its position in the list, so an
  allocation appends and never moves an older buffer. A \<^verbatim>\<open>DataView\<close> and a
  \<^verbatim>\<open>Uint8Array\<close> of the source always span a whole buffer: each is modelled by the
  address of its buffer, and two views of one buffer are the same address.
  A computation takes the store and returns an exception, or its result and the new store.
\<close>

type_synonym addr = nat
type_synonym store = "u8 list list"
type_synonym 'a js = "store \<Rightarrow> error + ('a \<times> store)"

definition returnJ :: "'a \<Rightarrow> 'a js" where
  "returnJ x s = Inr (x, s)"

definition throwJ :: "error \<Rightarrow> 'a js" where
  "throwJ e s = Inl e"

definition bindJ :: "'a js \<Rightarrow> ('a \<Rightarrow> 'b js) \<Rightarrow> 'b js" where
  "bindJ m f s = (case m s of Inl e \<Rightarrow> Inl e | Inr (x, s') \<Rightarrow> f x s')"

text \<open>\<^verbatim>\<open>new ArrayBuffer(n)\<close> and \<^verbatim>\<open>new Uint8Array(n)\<close>: a fresh buffer of \<open>n\<close> zero bytes.\<close>

definition new_buffer :: "nat \<Rightarrow> addr js" where
  "new_buffer n s = Inr (length s, s @ [replicate n 0])"

text \<open>The \<^verbatim>\<open>length\<close> of a \<^verbatim>\<open>Uint8Array\<close>.\<close>

definition length_of :: "addr \<Rightarrow> nat js" where
  "length_of a s = Inr (length (s ! a), s)"

text \<open>Writing \<open>bs\<close> into buffer \<open>a\<close> from position \<open>off\<close> on; the callers check the range.\<close>

definition write_bytes :: "u8 list \<Rightarrow> nat \<Rightarrow> u8 list \<Rightarrow> u8 list" where
  "write_bytes buf off bs = take off buf @ bs @ drop (off + length bs) buf"

definition poke :: "addr \<Rightarrow> nat \<Rightarrow> u8 list \<Rightarrow> store \<Rightarrow> store" where
  "poke a off bs s = s[a := write_bytes (s ! a) off bs]"

text \<open>\<^verbatim>\<open>DataView.prototype.setUint8\<close>, \<^verbatim>\<open>setUint16\<close> and \<^verbatim>\<open>setUint32\<close>: a \<^verbatim>\<open>RangeError\<close> when
  the value does not fit between the offset and the end of the view; the last argument is
  \<^verbatim>\<open>littleEndian\<close>.\<close>

definition setUint8 :: "addr \<Rightarrow> nat \<Rightarrow> number \<Rightarrow> unit js" where
  "setUint8 view byteOffset v s =
     (if byteOffset + 1 > length (s ! view) then Inl RangeError
      else Inr ((), poke view byteOffset [ToUint8 v] s))"

definition setUint16 :: "addr \<Rightarrow> nat \<Rightarrow> number \<Rightarrow> bool \<Rightarrow> unit js" where
  "setUint16 view byteOffset v littleEndian s =
     (if byteOffset + 2 > length (s ! view) then Inl RangeError
      else Inr ((), poke view byteOffset
             (if littleEndian then le16 (ToUint16 v) else rev (le16 (ToUint16 v))) s))"

definition setUint32 :: "addr \<Rightarrow> nat \<Rightarrow> number \<Rightarrow> bool \<Rightarrow> unit js" where
  "setUint32 view byteOffset v littleEndian s =
     (if byteOffset + 4 > length (s ! view) then Inl RangeError
      else Inr ((), poke view byteOffset
             (if littleEndian then le32 (ToUint32 v) else rev (le32 (ToUint32 v))) s))"

text \<open>An indexed store \<^verbatim>\<open>bytes[i] = v\<close> into a \<^verbatim>\<open>Uint8Array\<close>: \<open>v\<close> is converted by
  \<open>ToUint8\<close>; a store past the end is ignored.\<close>

definition store_at :: "addr \<Rightarrow> nat \<Rightarrow> number \<Rightarrow> unit js" where
  "store_at arr i v s =
     (if i < length (s ! arr) then Inr ((), poke arr i [ToUint8 v] s) else Inr ((), s))"

text \<open>\<^verbatim>\<open>target.set(source, offset)\<close> on \<^verbatim>\<open>Uint8Array\<close>s: copies the source into the
  target; a \<^verbatim>\<open>RangeError\<close> when it does not fit.\<close>

definition set_from :: "addr \<Rightarrow> addr \<Rightarrow> nat \<Rightarrow> unit js" where
  "set_from target source targetOffset s =
     (if length (s ! source) + targetOffset > length (s ! target) then Inl RangeError
      else Inr ((), poke target targetOffset (s ! source) s))"

text \<open>A \<^verbatim>\<open>Blob\<close> holds its own copy of the bytes it was made from, and a MIME type.\<close>

record blob =
  blob_bytes :: "u8 list"
  blob_mime :: js_string

definition new_Blob :: "addr \<Rightarrow> js_string \<Rightarrow> blob js" where
  "new_Blob part mime s = Inr (\<lparr>blob_bytes = s ! part, blob_mime = mime\<rparr>, s)"

section \<open>The header builder\<close>

text \<open>\<^verbatim>\<open>writeString\<close>: the loop \<^verbatim>\<open>for (let i = 0; i < string.length; i++)\<close>, from \<open>i\<close> on.\<close>

function writeString_from :: "addr \<Rightarrow> nat \<Rightarrow> js_string \<Rightarrow> nat \<Rightarrow> unit js" where
  "writeString_from view offset string i s =
     (if i < length string
      then (case setUint8 view (offset + i) (charCodeAt string i) s of
              Inl e \<Rightarrow> Inl e
            | Inr (u, s') \<Rightarrow> writeString_from view offset string (Suc i) s')
      else Inr ((), s))"
  by pat_completeness auto
termination
  by (relation "measure (\<lambda>(view, offset, string, i, s). length string - i)") auto

declare writeString_from.simps [simp del]

definition writeString :: "addr \<Rightarrow> nat \<Rightarrow> js_string \<Rightarrow> unit js" where
  "writeString view offset string = writeString_from view offset string 0"

text \<open>\<^verbatim>\<open>createWavHeader\<close>. The \<^verbatim>\<open>DataView\<close> and the returned \<^verbatim>\<open>Uint8Array\<close> are views of
  the one 44-byte buffer \<open>header\<close>.\<close>

definition createWavHeader :: "number \<Rightarrow> number \<Rightarrow> number \<Rightarrow> number \<Rightarrow> addr js" where
  "createWavHeader dataLength sampleRate numChannels bitsPerSample =
     bindJ (new_buffer 44) (\<lambda>header.
     bindJ (writeString header 0 (js_str ''RIFF'')) (\<lambda>_.
     bindJ (setUint32 header 4 (lit 36 + dataLength) True) (\<lambda>_.
     bindJ (writeString header 8 (js_str ''WAVE'')) (\<lambda>_.
     bindJ (writeString header 12 (js_str ''fmt '')) (\<lambda>_.
     bindJ (setUint32 header 16 (lit 16) True) (\<lambda>_.
     bindJ (setUint16 header 20 (lit 1) True) (\<lambda>_.
     bindJ (setUint16 header 22 numChannels True) (\<lambda>_.
     bindJ (setUint32 header 24 sampleRate True) (\<lambda>_.
     bindJ (setUint32 header 28
              (sampleRate * numChannels * (bitsPerSample / lit 8)) True) (\<lambda>_.
     bindJ (setUint16 header 32 (numChannels * (bitsPerSample / lit 8)) True) (\<lambda>_.
     bindJ (setUint16 header 34 bitsPerSample True) (\<lambda>_.
     bindJ (writeString header 36 (js_str ''data'')) (\<lambda>_.
     bindJ (setUint32 header 40 dataLength True) (\<lambda>_.
     returnJ header))))))))))))))"

section \<open>The decoder\<close>

subsection \<open>The host's \<^verbatim>\<open>atob\<close>\<close>

text \<open>
  \<^verbatim>\<open>atob\<close> is a built-in of the browser, not code of the repository. It is modelled as the
  HTML Standard defines it, by the \<^emph>\<open>forgiving-base64 decode\<close> of the Infra Standard:
  \<^enum> remove all ASCII whitespace (tab, line feed, form feed, carriage return, space);
  \<^enum> if the length is a multiple of 4, remove one or two trailing \<^verbatim>\<open>=\<close>;
  \<^enum> fail if the length leaves remainder 1 modulo 4;
  \<^enum> fail if a code point is not \<^verbatim>\<open>+\<close>, \<^verbatim>\<open>/\<close> or ASCII alphanumeric;
  \<^enum> each code point stands for six bits, its position in the alphabet; every 24 bits give
    three bytes; of 12 remaining bits the last four are dropped and the rest is one byte,
    of 18 remaining bits the last two are dropped and the rest is two bytes.
  On failure \<^verbatim>\<open>atob\<close> throws an \<^verbatim>\<open>InvalidCharacterError\<close>; otherwise it returns the string
  whose code units are the bytes.
\<close>

definition ascii_whitespace :: "code_unit \<Rightarrow> bool" where
  "ascii_whitespace c = (c = 0x09 \<or> c = 0x0A \<or> c = 0x0C \<or> c = 0x0D \<or> c = 0x20)"

definition base64_alphabet :: js_string where
  "base64_alphabet =
     js_str ''ABCDEFGHIJKLMNOPQRSTUVWXYZabcdefghijklmnopqrstuvwxyz0123456789+/''"

fun index_of :: "'a \<Rightarrow> 'a list \<Rightarrow> nat option" where
  "index_of x [] = None"
| "index_of x (y # ys) = (if x = y then Some 0 else map_option Suc (index_of x ys))"

definition remove_padding :: "js_string \<Rightarrow> js_string" where
  "remove_padding d =
     (if d \<noteq> [] \<and> last d = 0x3D
      then (if butlast d \<noteq> [] \<and> last (butlast d) = 0x3D
            then butlast (butlast d) else butlast d)
      else d)"

fun decode_sextets :: "nat list \<Rightarrow> u8 list" where
  "decode_sextets (a # b # c # d # rest) =
     (let n = ((a * 64 + b) * 64 + c) * 64 + d
      in [of_nat (n div 65536 mod 256), of_nat (n div 256 mod 256), of_nat (n mod 256)]
         @ decode_sextets rest)"
| "decode_sextets [a, b, c] =
     (let n = ((a * 64 + b) * 64 + c) div 4
      in [of_nat (n div 256 mod 256), of_nat (n mod 256)])"
| "decode_sextets [a, b] =
     (let n = (a * 64 + b) div 16
      in [of_nat (n mod 256)])"
| "decode_sextets rest = []"

definition forgiving_base64_decode :: "js_string \<Rightarrow> u8 list option" where
  "forgiving_base64_decode data =
     (let data1 = filter (\<lambda>c. \<not> ascii_whitespace c) data;
          data2 = (if length data1 mod 4 = 0 then remove_padding data1 else data1)
      in if length data2 mod 4 = 1 then None
         else (case those (map (\<lambda>c. index_of c base64_alphabet) data2) of
                 None \<Rightarrow> None
               | Some sextets \<Rightarrow> Some (decode_sextets sextets)))"

definition atob :: "js_string \<Rightarrow> error + js_string" where
  "atob data =
     (case forgiving_base64_decode data of
        None \<Rightarrow> Inl InvalidCharacterError
      | Some bs \<Rightarrow> Inr (map ucast bs))"

subsection \<open>\<^verbatim>\<open>base64ToUint8Array\<close>\<close>

text \<open>The loop \<^verbatim>\<open>for (let i = 0; i < len; i++) bytes[i] = binaryString.charCodeAt(i)\<close>,
  from \<open>i\<close> on.\<close>

function fill_from :: "addr \<Rightarrow> js_string \<Rightarrow> nat \<Rightarrow> nat \<Rightarrow> unit js" where
  "fill_from bytes binaryString len i s =
     (if i < len
      then (case store_at bytes i (charCodeAt binaryString i) s of
              Inl e \<Rightarrow> Inl e
            | Inr (u, s') \<Rightarrow> fill_from bytes binaryString len (Suc i) s')
      else Inr ((), s))"
  by pat_completeness auto
termination
  by (relation "measure (\<lambda>(bytes, binaryString, len, i, s). len - i)") auto

declare fill_from.simps [simp del]

definition base64ToUint8Array :: "js_string \<Rightarrow> addr js" where
  "base64ToUint8Array base64 =
     (case atob base64 of
        Inl e \<Rightarrow> throwJ e
      | Inr binaryString \<Rightarrow>
          (let len = length binaryString in
           bindJ (new_buffer len) (\<lambda>bytes.
           bindJ (fill_from bytes binaryString len 0) (\<lambda>_.
           returnJ bytes))))"

section \<open>The assembler\<close>

text \<open>\<^verbatim>\<open>pcmToWavBlob\<close>. The second argument is optional in the source: \<open>None\<close> is a call
  without it, where the default \<open>24000\<close> applies. The channel count \<open>1\<close> and the bit depth
  \<open>16\<close> are constants of the body. Each \<^verbatim>\<open>pcmData.length\<close> and \<^verbatim>\<open>header.length\<close> of the
  source is a read of the store.\<close>

definition pcmToWavBlob :: "js_string \<Rightarrow> number option \<Rightarrow> blob js" where
  "pcmToWavBlob base64Audio sampleRateArg =
     (let sampleRate = (case sampleRateArg of None \<Rightarrow> lit 24000 | Some r \<Rightarrow> r) in
      bindJ (base64ToUint8Array base64Audio) (\<lambda>pcmData.
      bindJ (length_of pcmData) (\<lambda>dataLength.
      bindJ (createWavHeader (lit dataLength) sampleRate (lit 1) (lit 16)) (\<lambda>header.
      bindJ (length_of header) (\<lambda>headerLength.
      bindJ (length_of pcmData) (\<lambda>pcmLength.
      bindJ (new_buffer (headerLength + pcmLength)) (\<lambda>wavFile.
      bindJ (set_from wavFile header 0) (\<lambda>_.
      bindJ (length_of header) (\<lambda>offset.
      bindJ (set_from wavFile pcmData offset) (\<lambda>_.
      new_Blob wavFile (js_str ''audio/wav'')))))))))))"

section \<open>The vocabulary of the specification\<close>

text \<open>The bytes of an ASCII tag such as \<^verbatim>\<open>"RIFF"\<close>.\<close>

definition ascii :: "string \<Rightarrow> u8 list" where
  "ascii cs = map (\<lambda>c. of_nat (of_char c)) cs"

text \<open>The bytes \<open>[off, off + n)\<close> of a byte sequence, and the unsigned little-endian integer
  that \<open>n\<close> bytes at an offset hold.\<close>

definition bytes_at :: "u8 list \<Rightarrow> nat \<Rightarrow> nat \<Rightarrow> u8 list" where
  "bytes_at h off n = take n (drop off h)"

definition le_value :: "u8 list \<Rightarrow> nat" where
  "le_value bs = foldr (\<lambda>b v. unat b + 256 * v) bs 0"

definition u16_at :: "u8 list \<Rightarrow> nat \<Rightarrow> nat" where
  "u16_at h off = le_value (bytes_at h off 2)"

definition u32_at :: "u8 list \<Rightarrow> nat \<Rightarrow> nat" where
  "u32_at h off = le_value (bytes_at h off 4)"

text \<open>The header of section 4.2 of the specification, field after field, each integer
  field holding its value, computed in the arithmetic of the source, as the conversion
  of the source stores it.\<close>

definition spec_header :: "number \<Rightarrow> number \<Rightarrow> number \<Rightarrow> number \<Rightarrow> u8 list" where
  "spec_header payloadLength sampleRate channelCount bitsPerSample =
     ascii ''RIFF'' @ le32 (ToUint32 (lit 36 + payloadLength)) @ ascii ''WAVE'' @
     ascii ''fmt '' @ le32 16 @ le16 1 @ le16 (ToUint16 channelCount) @
     le32 (ToUint32 sampleRate) @
     le32 (ToUint32 (sampleRate * channelCount * (bitsPerSample / lit 8))) @
     le16 (ToUint16 (channelCount * (bitsPerSample / lit 8))) @
     le16 (ToUint16 bitsPerSample) @
     ascii ''data'' @ le32 (ToUint32 payloadLength)"

text \<open>A standard base64 encoder (RFC 4648, with padding), the counterpart of the decoder
  in the round-trip law: the bits of the bytes are read in groups of six, a last group
  being filled with zero bits; each group is written as its character of the alphabet, and
  the text is padded with \<^verbatim>\<open>=\<close> to a multiple of four characters.\<close>

definition b64_char :: "nat \<Rightarrow> code_unit" where
  "b64_char i = base64_alphabet ! i"

fun sextets_of :: "u8 list \<Rightarrow> nat list" where
  "sextets_of (x # y # z # rest) =
     (let n = unat x * 65536 + unat y * 256 + unat z
      in [n div 262144, n div 4096 mod 64, n div 64 mod 64, n mod 64] @ sextets_of rest)"
| "sextets_of [x, y] =
     (let n = (unat x * 256 + unat y) * 4
      in [n div 4096, n div 64 mod 64, n mod 64])"
| "sextets_of [x] =
     (let n = unat x * 16
      in [n div 64, n mod 64])"
| "sextets_of [] = []"

definition base64_encode :: "u8 list \<Rightarrow> js_string" where
  "base64_encode P =
     map b64_char (sextets_of P) @ replicate ((3 - length P mod 3) mod 3) 0x3D"

text \<open>The inputs that the decoder rejects, told from the text alone: after the removal of
  ASCII whitespace and, when the length is then a multiple of 4, of one or two trailing
  \<^verbatim>\<open>=\<close>, the length leaves remainder 1 modulo 4 or a character is not of the alphabet.\<close>

definition atob_rejects :: "js_string \<Rightarrow> bool" where
  "atob_rejects data =
     (let data1 = filter (\<lambda>c. \<not> ascii_whitespace c) data;
          data2 = (if length data1 mod 4 = 0 then remove_padding data1 else data1)
      in length data2 mod 4 = 1 \<or> list_ex (\<lambda>c. c \<notin> set base64_alphabet) data2)"

text \<open>What a caller can observe of the \<^verbatim>\<open>Uint8Array\<close> that an operation returns: the
  exception, or the bytes of the array.\<close>

definition returned_bytes :: "error + addr \<times> store \<Rightarrow> error + u8 list" where
  "returned_bytes res = map_sum id (\<lambda>(a, t). t ! a) res"

text \<open>The sample rate in force in a call of the assembler.\<close>

definition rate_of :: "number option \<Rightarrow> number" where
  "rate_of r = (case r of None \<Rightarrow> lit 24000 | Some x \<Rightarrow> x)"

section \<open>The arithmetic of numbers\<close>

subsection \<open>Integers below \<open>2 ^ 53\<close> are computed exactly\<close>

lemma bit_length_0 [simp]: "bit_length 0 = 0"
  by (simp add: bit_length.simps)

lemma bit_length_le: "n < 2 ^ k \<Longrightarrow> bit_length n \<le> k"
proof (induction n arbitrary: k rule: bit_length.induct)
  case (1 n)
  show ?case
  proof (cases "n = 0")
    case True
    then show ?thesis by simp
  next
    case False
    with "1.prems" obtain j where k: "k = Suc j"
      by (cases k) auto
    have "n div 2 < 2 ^ j" using "1.prems" k by auto
    then have "bit_length (n div 2) \<le> j" using "1.IH" False by blast
    then show ?thesis using False k by (subst bit_length.simps) simp
  qed
qed

lemma bit_length_ge: "2 ^ k \<le> n \<Longrightarrow> Suc k \<le> bit_length n"
proof (induction n arbitrary: k rule: bit_length.induct)
  case (1 n)
  have "(0::nat) < 2 ^ k" by simp
  with "1.prems" have n: "n \<noteq> 0" by linarith
  show ?case
  proof (cases k)
    case 0
    then show ?thesis using n by (subst bit_length.simps) simp
  next
    case (Suc j)
    then have "2 ^ j \<le> n div 2" using "1.prems" by auto
    then have "Suc j \<le> bit_length (n div 2)" using "1.IH" n by blast
    then show ?thesis using n Suc by (subst bit_length.simps) simp
  qed
qed

lemma bit_length_eq: "2 ^ k \<le> n \<Longrightarrow> n < 2 ^ Suc k \<Longrightarrow> bit_length n = Suc k"
  using bit_length_le [of n "Suc k"] bit_length_ge [of k n] by simp

lemma round_half_even_of_int [simp]: "round_half_even (of_int m) = m"
  by (simp add: round_half_even_def)

lemma round_magnitude_of_nat:
  assumes "k < 2 ^ 53"
  shows "round_magnitude (of_nat k) = Some (of_nat k)"
proof (cases "k = 0")
  case True
  then show ?thesis by (simp add: round_magnitude_def)
next
  case False
  define e where "e = int (bit_length k) - 1"
  have pos: "0 < bit_length k"
    using bit_length_ge [of 0 k] False by simp
  have le: "bit_length k \<le> 53"
    using assms by (rule bit_length_le)
  have e: "0 \<le> e" "e \<le> 52"
    using pos le by (simp_all add: e_def)
  have b: "binade (of_nat k) = e"
    using False by (simp add: binade_def e_def)
  define d where "d = nat (52 - e)"
  have q: "pow2 (e - 52) = 1 / 2 ^ d"
  proof (cases "e = 52")
    case True
    then show ?thesis by (simp add: pow2_def d_def)
  next
    case False
    with e have "e - 52 < 0" by simp
    then show ?thesis by (simp add: pow2_def d_def)
  qed
  have "of_nat k / pow2 (e - 52) = (of_int (int k * 2 ^ d) :: rat)"
    by (simp add: q)
  then have r: "of_int (round_half_even (of_nat k / pow2 (e - 52))) * pow2 (e - 52) =
      (of_nat k :: rat)"
    by (simp only: round_half_even_of_int) (simp add: q)
  have "(of_nat k :: rat) < 2 ^ 53"
    using assms by (metis of_nat_less_iff of_nat_numeral of_nat_power)
  also have "\<dots> < 2 ^ 1024" by simp
  finally have small: "\<not> pow2 1024 \<le> (of_nat k :: rat)"
    by (simp add: pow2_def)
  have m: "max e (- 1022) = e" using e by simp
  show ?thesis
    using False small
    by (simp add: round_magnitude_def b m r Let_def)
qed

lemma fl_of_nat: "k < 2 ^ 53 \<Longrightarrow> fl s (of_nat k) = Fin s (of_nat k)"
  by (simp add: fl_def round_magnitude_of_nat)

lemma lit_add: "a + b < 2 ^ 53 \<Longrightarrow> lit a + lit b = lit (a + b)"
  using fl_of_nat [of "a + b" False]
  by (auto simp add: plus_number_def lit_def signed_def Let_def simp flip: of_nat_add)

lemma lit_mul: "a * b < 2 ^ 53 \<Longrightarrow> lit a * lit b = lit (a * b)"
  using fl_of_nat [of "a * b" False]
  by (simp add: times_number_def lit_def)

lemma lit_div:
  assumes "b dvd a" "b \<noteq> 0" "a div b < 2 ^ 53"
  shows "lit a / lit b = lit (a div b)"
proof -
  from assms(1) obtain c where a: "a = b * c" by (rule dvdE)
  have "(of_nat a :: rat) / of_nat b = of_nat (a div b)"
    using assms(2) by (simp add: a)
  then show ?thesis
    using fl_of_nat [of "a div b" False] assms(2,3)
    by (simp add: divide_number_def lit_def)
qed

subsection \<open>Conversions\<close>

lemma js_truncate_lit [simp]: "js_truncate (lit n) = int n"
  by (simp add: js_truncate_def lit_def)

lemma ToUint8_lit [simp]: "ToUint8 (lit n) = of_nat n"
  by (simp add: ToUint8_def)

lemma ToUint16_lit [simp]: "ToUint16 (lit n) = of_nat n"
  by (simp add: ToUint16_def)

lemma ToUint32_lit [simp]: "ToUint32 (lit n) = of_nat n"
  by (simp add: ToUint32_def)

lemma unat_ToUint32_lit: "n < 2 ^ 32 \<Longrightarrow> unat (ToUint32 (lit n)) = n"
  by (simp add: unat_of_nat take_bit_nat_eq_self)

lemma unat_ToUint16_lit: "n < 2 ^ 16 \<Longrightarrow> unat (ToUint16 (lit n)) = n"
  by (simp add: unat_of_nat take_bit_nat_eq_self)

lemma ToUint8_charCodeAt:
  "i < length str \<Longrightarrow> ToUint8 (charCodeAt str i) = ucast (str ! i)"
  by (simp add: charCodeAt_def)

subsection \<open>Rounded results\<close>

text \<open>Outside the integers below \<open>2 ^ 53\<close> a result is rounded. Four values of the fields of
  the header where the rounding shows: \<open>36 + (2 ^ 53 - 1)\<close> is odd and rounds up to an even
  number; \<open>0.7 * 10\<close>, with the double nearest to 0.7, is 7; and two byte rates whose exact
  product is not a double.\<close>

lemma binade_eval:
  assumes "2 ^ k \<le> a" "a < 2 ^ Suc k"
  shows "binade a = int k"
proof -
  have "(1::rat) \<le> 2 ^ k" by simp
  with assms(1) have one: "1 \<le> a" by linarith
  have "(2::int) ^ k \<le> \<lfloor>a\<rfloor>"
    using assms(1) by (simp add: le_floor_iff)
  then have lo: "2 ^ k \<le> nat \<lfloor>a\<rfloor>"
    by (simp add: le_nat_iff)
  have "\<lfloor>a\<rfloor> < 2 ^ Suc k"
    using assms(2) by (simp add: floor_less_iff)
  then have hi: "nat \<lfloor>a\<rfloor> < 2 ^ Suc k"
    using one by (simp add: nat_less_iff)
  show ?thesis
    using one by (simp add: binade_def bit_length_eq [OF lo hi])
qed

lemma round_half_even_eval:
  assumes "of_int f \<le> x" "x < of_int f + 1"
  shows "x - of_int f < 1 / 2 \<Longrightarrow> round_half_even x = f"
    "1 / 2 < x - of_int f \<Longrightarrow> round_half_even x = f + 1"
    "x - of_int f = 1 / 2 \<Longrightarrow> even f \<Longrightarrow> round_half_even x = f"
    "x - of_int f = 1 / 2 \<Longrightarrow> odd f \<Longrightarrow> round_half_even x = f + 1"
proof -
  have f: "\<lfloor>x\<rfloor> = f" using assms by (rule floor_unique)
  show "x - of_int f < 1 / 2 \<Longrightarrow> round_half_even x = f"
    "1 / 2 < x - of_int f \<Longrightarrow> round_half_even x = f + 1"
    "x - of_int f = 1 / 2 \<Longrightarrow> even f \<Longrightarrow> round_half_even x = f"
    "x - of_int f = 1 / 2 \<Longrightarrow> odd f \<Longrightarrow> round_half_even x = f + 1"
    by (auto simp add: round_half_even_def Let_def f)
qed

lemma round_magnitude_eval:
  assumes "a \<noteq> 0" "binade a = e" "- 1022 \<le> e" "pow2 (e - 52) = q"
    "round_half_even (a / q) = n" "of_int n * q = r" "r < 2 ^ 1024"
  shows "round_magnitude a = Some r"
  using assms by (auto simp add: round_magnitude_def Let_def pow2_def max_def)

lemma add_above_2_53: "lit 36 + lit 9007199254740991 = lit 9007199254741028"
proof -
  let ?a = "9007199254741027 :: rat"
  have b: "binade ?a = int 53"
    by (rule binade_eval) simp_all
  have h: "round_half_even (?a / 2) = 4503599627370513 + 1"
    by (rule round_half_even_eval(4) [where f = 4503599627370513]) simp_all
  have "round_magnitude ?a = Some 9007199254741028"
    by (rule round_magnitude_eval [OF _ b _ _ h]) (simp_all add: pow2_def)
  then show ?thesis
    by (simp add: plus_number_def lit_def signed_def fl_def)
qed

lemma mul_fraction: "Fin False (3152519739159347 / 4503599627370496) * lit 10 = lit 7"
proof -
  let ?a = "3152519739159347 / 4503599627370496 * 10 :: rat"
  have b: "binade ?a = int 2"
    by (rule binade_eval) simp_all
  have h: "round_half_even (?a / (1 / 2 ^ 50)) = 7881299347898367 + 1"
    by (rule round_half_even_eval(4) [where f = 7881299347898367]) simp_all
  have "round_magnitude ?a = Some 7"
    by (rule round_magnitude_eval [OF _ b _ _ h]) (simp_all add: pow2_def)
  then show ?thesis
    by (simp add: times_number_def lit_def fl_def)
qed

lemma byte_rate_wide: "ToUint32 (lit 4294967295 * lit 65535 * (lit 65528 / lit 8)) = 0xE0012000"
proof -
  let ?a = "2305526353623064575 :: rat"
  have e: "lit 4294967295 * lit 65535 = lit 281470681677825" "lit 65528 / lit 8 = lit 8191"
    by (simp_all add: lit_mul lit_div)
  have b: "binade ?a = int 60"
    by (rule binade_eval) simp_all
  have h: "round_half_even (?a / 2 ^ 8) = 9005962318840095 + 1"
    by (rule round_half_even_eval(2) [where f = 9005962318840095]) simp_all
  have "round_magnitude ?a = Some 2305526353623064576"
    by (rule round_magnitude_eval [OF _ b _ _ h]) (simp_all add: pow2_def)
  then have "lit 281470681677825 * lit 8191 = lit 2305526353623064576"
    by (simp add: times_number_def lit_def fl_def)
  then have "lit 4294967295 * lit 65535 * (lit 65528 / lit 8) = lit 2305526353623064576"
    by (simp only: e)
  then show ?thesis
    by simp
qed

lemma byte_rate_odd:
  "ToUint32 (lit 9007199254740994 * lit 3 * (lit 8 / lit 8)) = 8"
proof -
  let ?a = "27021597764222982 :: rat"
  have e: "lit 8 / lit 8 = lit 1"
    by (simp add: lit_div)
  have b: "binade ?a = int 54"
    by (rule binade_eval) simp_all
  have h: "round_half_even (?a / 2 ^ 2) = 6755399441055745 + 1"
    by (rule round_half_even_eval(4) [where f = 6755399441055745]) simp_all
  have "round_magnitude ?a = Some 27021597764222984"
    by (rule round_magnitude_eval [OF _ b _ _ h]) (simp_all add: pow2_def)
  then have m: "lit 9007199254740994 * lit 3 = lit 27021597764222984"
    by (simp add: times_number_def lit_def fl_def)
  let ?r = "27021597764222984 :: rat"
  have b': "binade ?r = int 54"
    by (rule binade_eval) simp_all
  have h': "round_half_even (?r / 2 ^ 2) = 6755399441055746"
    by (rule round_half_even_eval(1) [where f = 6755399441055746]) simp_all
  have "round_magnitude ?r = Some 27021597764222984"
    by (rule round_magnitude_eval [OF _ b' _ _ h']) (simp_all add: pow2_def)
  then have "lit 27021597764222984 * lit 1 = lit 27021597764222984"
    by (simp add: times_number_def lit_def fl_def)
  then have "lit 9007199254740994 * lit 3 * (lit 8 / lit 8) = lit 27021597764222984"
    by (simp only: e m)
  then show ?thesis
    by simp
qed

section \<open>Properties of the store\<close>

subsection \<open>Strings and bytes\<close>

lemma ucast_of_nat_down: "(ucast (word_of_nat n :: 16 word) :: 8 word) = word_of_nat n"
  by (rule bit_word_eqI) (auto simp add: bit_simps)

lemma ucast_js_str: "map ucast (js_str cs) = ascii cs"
  by (simp add: js_str_def ascii_def ucast_of_nat_down)

lemma ucast_up_down [simp]: "(ucast (ucast (b :: 8 word) :: 16 word) :: 8 word) = b"
  by (rule bit_word_eqI) (auto simp add: bit_simps)

lemma length_js_str [simp]: "length (js_str cs) = length cs"
  by (simp add: js_str_def)

lemma length_ascii [simp]: "length (ascii cs) = length cs"
  by (simp add: ascii_def)

lemma length_le16 [simp]: "length (le16 w) = 2"
  by (simp add: le16_def)

lemma length_le32 [simp]: "length (le32 w) = 4"
  by (simp add: le32_def)

subsection \<open>Writes into a buffer\<close>

lemma length_write_bytes:
  "off + length bs \<le> length buf \<Longrightarrow> length (write_bytes buf off bs) = length buf"
  by (simp add: write_bytes_def)

lemma write_bytes_Nil [simp]: "write_bytes buf off [] = buf"
  by (simp add: write_bytes_def)

lemma write_bytes_Cons:
  "off < length buf \<Longrightarrow>
   write_bytes (write_bytes buf off [b]) (Suc off) bs = write_bytes buf off (b # bs)"
  by (simp add: write_bytes_def min_def add.commute)

lemma write_bytes_start:
  "length bs \<le> n \<Longrightarrow>
   write_bytes (replicate n z) 0 bs = bs @ replicate (n - length bs) z"
  by (simp add: write_bytes_def)

lemma write_bytes_skip:
  "length xs \<le> off \<Longrightarrow>
   write_bytes (xs @ ys) off bs = xs @ write_bytes ys (off - length xs) bs"
  by (simp add: write_bytes_def)

lemma poke_fresh: "poke (length s) off bs (s @ [buf]) = s @ [write_bytes buf off bs]"
  by (simp add: poke_def)

lemma poke_Nil [simp]: "poke a off [] s = s"
  by (simp add: poke_def)

lemma poke_Cons:
  assumes "a < length s" "off < length (s ! a)"
  shows "poke a (Suc off) bs (poke a off [b] s) = poke a off (b # bs) s"
  using assms by (simp add: poke_def write_bytes_Cons)

lemma poke_same_length:
  assumes "a < length s" "off + length bs \<le> length (s ! a)"
  shows "length (poke a off bs s ! a) = length (s ! a)" "a < length (poke a off bs s)"
  using assms by (simp_all add: poke_def length_write_bytes)

subsection \<open>The loops of the source\<close>

lemma writeString_from_run:
  assumes "view < length s" "offset + length string \<le> length (s ! view)" "i \<le> length string"
  shows "writeString_from view offset string i s =
         Inr ((), poke view (offset + i) (map ucast (drop i string)) s)"
  using assms
proof (induction "length string - i" arbitrary: i s)
  case 0
  then show ?case by (simp add: writeString_from.simps)
next
  case (Suc n)
  then have i: "i < length string" by simp
  let ?s' = "poke view (offset + i) [ucast (string ! i)] s"
  have len: "length (?s' ! view) = length (s ! view)" "view < length ?s'"
    using Suc.prems i by (simp_all add: poke_same_length)
  have step: "setUint8 view (offset + i) (charCodeAt string i) s = Inr ((), ?s')"
    using Suc.prems i by (simp add: setUint8_def ToUint8_charCodeAt)
  have IH: "writeString_from view offset string (Suc i) ?s' =
         Inr ((), poke view (offset + Suc i) (map ucast (drop (Suc i) string)) ?s')"
    using Suc.hyps(1)[of "Suc i" ?s'] Suc.hyps(2) Suc.prems i len by simp
  have d: "drop i string = string ! i # drop (Suc i) string"
    using i by (simp add: Cons_nth_drop_Suc)
  have "poke view (offset + Suc i) (map ucast (drop (Suc i) string)) ?s'
        = poke view (offset + i) (map ucast (drop i string)) s"
    using Suc.prems i unfolding d by (simp add: poke_Cons)
  with step IH i show ?case
    by (subst writeString_from.simps) simp
qed

lemma fill_from_run:
  assumes "bytes < length s" "length binaryString \<le> length (s ! bytes)"
    "i \<le> length binaryString"
  shows "fill_from bytes binaryString (length binaryString) i s =
         Inr ((), poke bytes i (map ucast (drop i binaryString)) s)"
  using assms
proof (induction "length binaryString - i" arbitrary: i s)
  case 0
  then show ?case by (simp add: fill_from.simps)
next
  case (Suc n)
  then have i: "i < length binaryString" by simp
  let ?s' = "poke bytes i [ucast (binaryString ! i)] s"
  have len: "length (?s' ! bytes) = length (s ! bytes)" "bytes < length ?s'"
    using Suc.prems i by (simp_all add: poke_same_length)
  have step: "store_at bytes i (charCodeAt binaryString i) s = Inr ((), ?s')"
    using Suc.prems i by (simp add: store_at_def ToUint8_charCodeAt)
  have IH: "fill_from bytes binaryString (length binaryString) (Suc i) ?s' =
         Inr ((), poke bytes (Suc i) (map ucast (drop (Suc i) binaryString)) ?s')"
    using Suc.hyps(1)[of "Suc i" ?s'] Suc.hyps(2) Suc.prems i len by simp
  have d: "drop i binaryString = binaryString ! i # drop (Suc i) binaryString"
    using i by (simp add: Cons_nth_drop_Suc)
  have "poke bytes (Suc i) (map ucast (drop (Suc i) binaryString)) ?s'
        = poke bytes i (map ucast (drop i binaryString)) s"
    using Suc.prems i unfolding d by (simp add: poke_Cons)
  with step IH i show ?case
    by (subst fill_from.simps) simp
qed

subsection \<open>What each operation returns\<close>

lemma writeString_fresh:
  "offset + length string \<le> length buf \<Longrightarrow>
   writeString (length s) offset string (s @ [buf]) =
     Inr ((), s @ [write_bytes buf offset (map ucast string)])"
  using writeString_from_run [of "length s" "s @ [buf]" offset string 0]
  by (simp add: writeString_def poke_fresh)

lemma setUint16_fresh:
  "byteOffset + 2 \<le> length buf \<Longrightarrow>
   setUint16 (length s) byteOffset v True (s @ [buf]) =
     Inr ((), s @ [write_bytes buf byteOffset (le16 (ToUint16 v))])"
  by (simp add: setUint16_def poke_fresh)

lemma setUint32_fresh:
  "byteOffset + 4 \<le> length buf \<Longrightarrow>
   setUint32 (length s) byteOffset v True (s @ [buf]) =
     Inr ((), s @ [write_bytes buf byteOffset (le32 (ToUint32 v))])"
  by (simp add: setUint32_def poke_fresh)

lemma createWavHeader_run:
  "createWavHeader dataLength sampleRate numChannels bitsPerSample s =
     Inr (length s, s @ [spec_header dataLength sampleRate numChannels bitsPerSample])"
  by (simp add: createWavHeader_def bindJ_def returnJ_def new_buffer_def
      writeString_fresh setUint16_fresh setUint32_fresh length_write_bytes
      write_bytes_start write_bytes_skip spec_header_def ucast_js_str)

lemma length_spec_header [simp]: "length (spec_header l r c b) = 44"
  by (simp add: spec_header_def)

lemma base64ToUint8Array_Some:
  assumes "forgiving_base64_decode base64 = Some P"
  shows "base64ToUint8Array base64 s = Inr (length s, s @ [P])"
proof -
  let ?bin = "map ucast P :: js_string"
  have "fill_from (length s) ?bin (length ?bin) 0 (s @ [replicate (length ?bin) 0]) =
        Inr ((), poke (length s) 0 (map ucast (drop 0 ?bin)) (s @ [replicate (length ?bin) 0]))"
    by (rule fill_from_run) simp_all
  then have "fill_from (length s) ?bin (length P) 0 (s @ [replicate (length P) 0]) =
        Inr ((), s @ [P])"
    by (simp add: poke_fresh write_bytes_start comp_def)
  then show ?thesis
    using assms
    by (simp add: base64ToUint8Array_def atob_def bindJ_def returnJ_def new_buffer_def
        Let_def)
qed

lemma base64ToUint8Array_None:
  assumes "forgiving_base64_decode base64 = None"
  shows "base64ToUint8Array base64 s = Inl InvalidCharacterError"
  using assms by (simp add: base64ToUint8Array_def atob_def throwJ_def)

lemma nth_fresh1: "(s @ x # y # ys) ! Suc (length s) = y"
  by (simp add: nth_append)

lemma nth_fresh2: "(s @ x # y # z # zs) ! Suc (Suc (length s)) = z"
  by (simp add: nth_append)

lemma poke_fresh2:
  "poke (Suc (Suc (length s))) off bs (s @ [x, y, buf]) = s @ [x, y, write_bytes buf off bs]"
  by (simp add: poke_def nth_fresh2 list_update_append)

lemma pcmToWavBlob_Some:
  assumes "forgiving_base64_decode base64Audio = Some P"
  shows "pcmToWavBlob base64Audio r s =
     Inr (\<lparr>blob_bytes = spec_header (lit (length P)) (rate_of r) (lit 1) (lit 16) @ P,
           blob_mime = js_str ''audio/wav''\<rparr>,
          s @ [P, spec_header (lit (length P)) (rate_of r) (lit 1) (lit 16),
               spec_header (lit (length P)) (rate_of r) (lit 1) (lit 16) @ P])"
proof -
  let ?H = "spec_header (lit (length P)) (rate_of r) (lit 1) (lit 16)"
  let ?s3 = "s @ [P, ?H, replicate (44 + length P) 0]"
  let ?s4 = "s @ [P, ?H, ?H @ replicate (length P) 0]"
  let ?s5 = "s @ [P, ?H, ?H @ P]"
  have a: "base64ToUint8Array base64Audio s = Inr (length s, s @ [P])"
    by (rule base64ToUint8Array_Some [OF assms])
  have b: "createWavHeader (lit (length P)) (rate_of r) (lit 1) (lit 16) (s @ [P]) =
           Inr (Suc (length s), s @ [P, ?H])"
    using createWavHeader_run [of "lit (length P)" "rate_of r" "lit 1" "lit 16" "s @ [P]"] by simp
  have c: "set_from (Suc (Suc (length s))) (Suc (length s)) 0 ?s3 = Inr ((), ?s4)"
    by (simp add: set_from_def nth_fresh1 nth_fresh2 poke_fresh2 write_bytes_start)
  have d: "set_from (Suc (Suc (length s))) (length s) 44 ?s4 = Inr ((), ?s5)"
    by (simp add: set_from_def nth_fresh2 poke_fresh2 write_bytes_skip write_bytes_start)
  show ?thesis
    using a b c d
    by (simp add: pcmToWavBlob_def bindJ_def length_of_def new_buffer_def new_Blob_def
        nth_fresh1 nth_fresh2 rate_of_def [symmetric])
qed

lemma pcmToWavBlob_None:
  assumes "forgiving_base64_decode base64Audio = None"
  shows "pcmToWavBlob base64Audio r s = Inl InvalidCharacterError"
  using base64ToUint8Array_None [OF assms]
  by (simp add: pcmToWavBlob_def bindJ_def)

subsection \<open>Little-endian fields\<close>

lemma base256_4:
  assumes "(n::nat) < 4294967296"
  shows "n mod 256 + 256 * (n div 256 mod 256 + 256 * (n div 65536 mod 256 +
           256 * (n div 16777216 mod 256))) = n"
proof -
  have a: "n div 16777216 = n div 65536 div 256" "n div 65536 = n div 256 div 256"
    by (simp_all add: div_mult2_eq [symmetric])
  have "n div 16777216 < 256"
    using assms by (simp add: less_mult_imp_div_less)
  then have "n div 16777216 mod 256 = n div 65536 div 256"
    by (simp only: a(1) mod_less)
  then have "n div 65536 mod 256 + 256 * (n div 16777216 mod 256) = n div 256 div 256"
    by (simp only: a(2) mod_mult_div_eq)
  then have "n div 256 mod 256 + 256 * (n div 65536 mod 256 +
           256 * (n div 16777216 mod 256)) = n div 256"
    by (simp only: mod_mult_div_eq)
  then show ?thesis
    by (simp only: mod_mult_div_eq)
qed

lemma base256_2:
  assumes "(n::nat) < 65536"
  shows "n mod 256 + 256 * (n div 256 mod 256) = n"
proof -
  have "n div 256 < 256"
    using assms by (simp add: less_mult_imp_div_less)
  then have "n div 256 mod 256 = n div 256" by simp
  then show ?thesis by (simp only: mod_mult_div_eq)
qed

lemma unat_byte:
  "unat (ucast (w :: 'a::len word) :: u8) = unat w mod 256"
  "unat (drop_bit 8 w) = unat w div 256"
  "unat (drop_bit 16 w) = unat w div 65536"
  "unat (drop_bit 24 w) = unat w div 16777216"
  by (simp_all add: unsigned_ucast_eq take_bit_eq_mod unat_drop_bit_eq
      drop_bit_eq_div [where ?'a = nat])

lemma le_value_le16: "le_value (le16 w) = unat w"
proof -
  have lt: "unat w < 65536" using unsigned_less [of w, where 'a = nat] by simp
  have "le_value (le16 w) =
        unat (ucast w :: u8) + 256 * unat (ucast (drop_bit 8 w) :: u8)"
    by (simp add: le_value_def le16_def)
  also have "\<dots> = unat w"
    by (simp only: unat_byte base256_2 [OF lt])
  finally show ?thesis .
qed

lemma le_value_le32: "le_value (le32 w) = unat w"
proof -
  have lt: "unat w < 4294967296" using unsigned_less [of w, where 'a = nat] by simp
  have "le_value (le32 w) =
        unat (ucast w :: u8) + 256 * (unat (ucast (drop_bit 8 w) :: u8) +
          256 * (unat (ucast (drop_bit 16 w) :: u8) +
            256 * unat (ucast (drop_bit 24 w) :: u8)))"
    by (simp add: le_value_def le32_def)
  also have "\<dots> = unat w"
    by (simp only: unat_byte base256_4 [OF lt])
  finally show ?thesis .
qed

section \<open>The decoder undoes the encoder\<close>

subsection \<open>The alphabet\<close>

lemma length_base64_alphabet: "length base64_alphabet = 64"
  by (simp add: base64_alphabet_def js_str_def)

lemma distinct_base64_alphabet: "distinct base64_alphabet"
  by (simp add: base64_alphabet_def js_str_def)

lemma pad_not_in_alphabet: "0x3D \<notin> set base64_alphabet"
  by (simp add: base64_alphabet_def js_str_def)

lemma alphabet_not_whitespace: "c \<in> set base64_alphabet \<Longrightarrow> \<not> ascii_whitespace c"
  by (auto simp add: base64_alphabet_def js_str_def ascii_whitespace_def)

lemma index_of_None_iff: "index_of x xs = None \<longleftrightarrow> x \<notin> set xs"
  by (induction xs) auto

lemma index_of_nth: "distinct xs \<Longrightarrow> i < length xs \<Longrightarrow> index_of (xs ! i) xs = Some i"
proof (induction xs arbitrary: i)
  case Nil
  then show ?case by simp
next
  case (Cons y ys)
  show ?case
  proof (cases i)
    case 0
    then show ?thesis by simp
  next
    case (Suc j)
    with Cons.prems have "ys ! j \<in> set ys" "y \<notin> set ys" by auto
    then have "ys ! j \<noteq> y" by auto
    with Cons Suc show ?thesis by auto
  qed
qed

lemma b64_char_in: "i < 64 \<Longrightarrow> b64_char i \<in> set base64_alphabet"
  by (simp add: b64_char_def length_base64_alphabet)

lemma index_of_b64_char: "i < 64 \<Longrightarrow> index_of (b64_char i) base64_alphabet = Some i"
  unfolding b64_char_def
  by (rule index_of_nth) (simp_all add: distinct_base64_alphabet length_base64_alphabet)


subsection \<open>Known values\<close>

lemma replicate_2: "replicate 2 x = [x, x]"
  by (simp add: numeral_2_eq_2)

text \<open>The test vectors of RFC 4648 for the encoder.\<close>

lemma base64_encode_vectors:
  "base64_encode (ascii '''') = js_str ''''"
  "base64_encode (ascii ''f'') = js_str ''Zg==''"
  "base64_encode (ascii ''fo'') = js_str ''Zm8=''"
  "base64_encode (ascii ''foo'') = js_str ''Zm9v''"
  "base64_encode (ascii ''foob'') = js_str ''Zm9vYg==''"
  "base64_encode (ascii ''fooba'') = js_str ''Zm9vYmE=''"
  "base64_encode (ascii ''foobar'') = js_str ''Zm9vYmFy''"
  by (simp_all add: base64_encode_def ascii_def js_str_def b64_char_def base64_alphabet_def
      Let_def replicate_2)

text \<open>\<^verbatim>\<open>atob\<close> on padded, unpadded and spaced input, and on input it rejects: a
  length of 5, a misplaced \<^verbatim>\<open>=\<close>, the characters of the URL-safe alphabet.\<close>

lemma atob_vectors:
  "atob (js_str ''Zm9vYmFy'') = Inr (js_str ''foobar'')"
  "atob (js_str ''Zm9vYg=='') = Inr (js_str ''foob'')"
  "atob (js_str ''Zm9vYg'') = Inr (js_str ''foob'')"
  "atob (js_str '' Zm9v\<newline>YmE= '') = Inr (js_str ''fooba'')"
  "atob (js_str ''Zm9vY'') = Inl InvalidCharacterError"
  "atob (js_str ''Zm=9vYmE'') = Inl InvalidCharacterError"
  "atob (js_str ''Zm9v-_'') = Inl InvalidCharacterError"
  by (simp_all add: atob_def forgiving_base64_decode_def js_str_def ascii_whitespace_def
      remove_padding_def base64_alphabet_def)

subsection \<open>Digits in base 64 and in base 256\<close>

lemma digits64_3: "(n div 4096 * 64 + n div 64 mod 64) * 64 + n mod 64 = (n::nat)"
proof -
  have "n div 4096 = n div 64 div 64" by (simp add: div_mult2_eq [symmetric])
  then have "n div 4096 * 64 + n div 64 mod 64 = n div 64" by (simp only: div_mult_mod_eq)
  then show ?thesis by (simp only: div_mult_mod_eq)
qed

lemma digits64_4:
  "((n div 262144 * 64 + n div 4096 mod 64) * 64 + n div 64 mod 64) * 64 + n mod 64 = (n::nat)"
proof -
  have "n div 262144 = n div 4096 div 64" by (simp add: div_mult2_eq [symmetric])
  then have "n div 262144 * 64 + n div 4096 mod 64 = n div 4096" by (simp only: div_mult_mod_eq)
  then show ?thesis by (simp only: digits64_3)
qed

lemma split3:
  fixes a b c :: nat
  assumes "b < 256" "c < 256"
  shows "(a * 65536 + b * 256 + c) div 65536 = a"
    "(a * 65536 + b * 256 + c) div 256 = a * 256 + b"
    "(a * 65536 + b * 256 + c) mod 256 = c"
proof -
  have r: "b * 256 + c < 65536" using assms by linarith
  have "(a * 65536 + (b * 256 + c)) div 65536 = a"
    using r by simp
  then show "(a * 65536 + b * 256 + c) div 65536 = a"
    by (simp add: add.assoc)
  have e: "a * 65536 + b * 256 + c = (a * 256 + b) * 256 + c"
    by simp
  have "((a * 256 + b) * 256 + c) div 256 = a * 256 + b + c div 256"
    by (rule div_mult_self3) simp
  then show "(a * 65536 + b * 256 + c) div 256 = a * 256 + b"
    using assms by (simp only: e div_less add_0_right)
  have "((a * 256 + b) * 256 + c) mod 256 = c mod 256"
    by (rule mod_mult_self3)
  then show "(a * 65536 + b * 256 + c) mod 256 = c"
    using assms by (simp only: e mod_less)
qed

lemma split2:
  fixes a b :: nat
  assumes "b < 256"
  shows "(a * 256 + b) div 256 = a" "(a * 256 + b) mod 256 = b"
  using assms by simp_all

lemma unat_u8_less: "unat (x :: u8) < 256"
  using unsigned_less [of x, where 'a = nat] by simp

subsection \<open>Groups of six bits\<close>

lemma decode_group3:
  fixes a b c :: nat
  assumes "a < 256" "b < 256" "c < 256"
  defines "n \<equiv> a * 65536 + b * 256 + c"
  shows "decode_sextets ([n div 262144, n div 4096 mod 64, n div 64 mod 64, n mod 64] @ vs) =
         [of_nat a, of_nat b, of_nat c] @ decode_sextets vs"
proof -
  have "n div 65536 mod 256 = a" "n div 256 mod 256 = b" "n mod 256 = c"
    unfolding n_def using assms by (simp_all only: split3 split2 mod_less)
  then show ?thesis
    by (simp only: append.simps decode_sextets.simps Let_def digits64_4)
qed

lemma decode_group2:
  fixes a b :: nat
  assumes "a < 256" "b < 256"
  defines "n \<equiv> (a * 256 + b) * 4"
  shows "decode_sextets [n div 4096, n div 64 mod 64, n mod 64] = [of_nat a, of_nat b]"
proof -
  have "n div 4 = a * 256 + b" unfolding n_def by simp
  then have "n div 4 div 256 mod 256 = a" "n div 4 mod 256 = b"
    using assms by (simp_all only: split2 mod_less)
  then show ?thesis
    by (simp only: decode_sextets.simps Let_def digits64_3)
qed

lemma decode_group1:
  fixes a :: nat
  assumes "a < 256"
  defines "n \<equiv> a * 16"
  shows "decode_sextets [n div 64, n mod 64] = [of_nat a]"
proof -
  have "n div 16 mod 256 = a" unfolding n_def using assms by simp
  then show ?thesis
    by (simp add: Let_def)
qed

lemma sextet_bounds:
  fixes a b c :: nat
  assumes "a < 256" "b < 256" "c < 256"
  shows "(a * 65536 + b * 256 + c) div 262144 < 64" "(a * 256 + b) * 4 div 4096 < 64"
    "a * 16 div 64 < 64"
proof -
  have "a * 65536 + b * 256 + c < 64 * 262144" using assms by linarith
  then show "(a * 65536 + b * 256 + c) div 262144 < 64" by (rule less_mult_imp_div_less)
  have "(a * 256 + b) * 4 < 64 * 4096" using assms by simp
  then show "(a * 256 + b) * 4 div 4096 < 64" by (rule less_mult_imp_div_less)
  show "a * 16 div 64 < 64" using assms by simp
qed

lemma sextets_of_bound: "list_all (\<lambda>v. v < 64) (sextets_of P)"
proof (induction P rule: sextets_of.induct)
  case (1 x y z rest)
  then show ?case
    using sextet_bounds(1) [OF unat_u8_less [of x] unat_u8_less [of y] unat_u8_less [of z]]
    by (simp add: Let_def)
next
  case (2 x y)
  then show ?case
    using sextet_bounds(2) [OF unat_u8_less [of x] unat_u8_less [of y] unat_u8_less [of y]]
    by (simp add: Let_def)
next
  case (3 x)
  then show ?case
    using sextet_bounds(3) [OF unat_u8_less [of x] unat_u8_less [of x] unat_u8_less [of x]]
    by (simp add: Let_def)
next
  case 4
  then show ?case by simp
qed

lemma decode_sextets_of: "decode_sextets (sextets_of P) = P"
proof (induction P rule: sextets_of.induct)
  case (1 x y z rest)
  show ?case
    using decode_group3 [OF unat_u8_less [of x] unat_u8_less [of y] unat_u8_less [of z],
        of "sextets_of rest"] "1.IH"
    by (simp add: Let_def)
next
  case (2 x y)
  show ?case
    using decode_group2 [OF unat_u8_less [of x] unat_u8_less [of y]]
    by (simp add: Let_def)
next
  case (3 x)
  show ?case
    using decode_group1 [OF unat_u8_less [of x]]
    by (simp add: Let_def)
next
  case 4
  show ?case by simp
qed

lemma length_sextets_of:
  "length (sextets_of P) =
     4 * (length P div 3) + (if length P mod 3 = 0 then 0 else length P mod 3 + 1)"
proof (induction P rule: sextets_of.induct)
  case (1 x y z rest)
  have "length (x # y # z # rest) = length rest + 3" by simp
  then have "length (x # y # z # rest) div 3 = length rest div 3 + 1"
    "length (x # y # z # rest) mod 3 = length rest mod 3"
    by (simp_all only: div_add_self2 mod_add_self2)
  with 1 show ?case by (simp add: Let_def)
qed (simp_all add: Let_def)

lemma mod3_cases:
  obtains "(n::nat) mod 3 = 0" | "n mod 3 = 1" | "n mod 3 = 2"
proof -
  have "n mod 3 < 3" by simp
  then show ?thesis using that by linarith
qed

lemma length_sextets_of_mod: "length (sextets_of P) mod 4 \<noteq> 1"
proof -
  have "length (sextets_of P) mod 4 =
        (if length P mod 3 = 0 then 0 else length P mod 3 + 1) mod 4"
    by (simp only: length_sextets_of mod_mult_self4)
  then show ?thesis
    by (cases "length P" rule: mod3_cases) simp_all
qed

lemma length_base64_encode: "length (base64_encode P) mod 4 = 0"
proof -
  let ?k = "(3 - length P mod 3) mod 3"
  have "length (base64_encode P) mod 4 =
        ((if length P mod 3 = 0 then 0 else length P mod 3 + 1) + ?k) mod 4"
    by (simp only: base64_encode_def length_append length_map length_replicate
        length_sextets_of add.assoc mod_mult_self4)
  then show ?thesis
    by (cases "length P" rule: mod3_cases) simp_all
qed

lemma those_index_of:
  "list_all (\<lambda>v. v < 64) vs \<Longrightarrow>
   those (map (\<lambda>v. index_of (b64_char v) base64_alphabet) vs) = Some vs"
  by (induction vs) (simp_all add: index_of_b64_char)

lemma b64_chars_not_pad:
  "list_all (\<lambda>v. v < 64) vs \<Longrightarrow> list_all (\<lambda>c. c \<noteq> 0x3D) (map b64_char vs)"
  using pad_not_in_alphabet
  by (induction vs) (auto dest: b64_char_in)

lemma b64_chars_not_whitespace:
  "list_all (\<lambda>v. v < 64) vs \<Longrightarrow>
   filter (\<lambda>c. \<not> ascii_whitespace c) (map b64_char vs) = map b64_char vs"
  by (induction vs) (auto dest: b64_char_in alphabet_not_whitespace)

lemma whitespace_pad [simp]: "\<not> ascii_whitespace 0x3D"
  by (simp add: ascii_whitespace_def)

lemma remove_padding_pad:
  assumes "list_all (\<lambda>c. c \<noteq> 0x3D) cs" "k \<le> 2"
  shows "remove_padding (cs @ replicate k 0x3D) = cs"
proof -
  have last: "cs \<noteq> [] \<Longrightarrow> last cs \<noteq> 0x3D"
    using assms(1) by (induction cs) auto
  from assms(2) consider "k = 0" | "k = 1" | "k = 2" by linarith
  then show ?thesis
  proof cases
    case 1
    then show ?thesis using last by (auto simp add: remove_padding_def)
  next
    case 2
    then show ?thesis using last by (auto simp add: remove_padding_def)
  next
    case 3
    then have "replicate k (0x3D :: code_unit) = [0x3D, 0x3D]"
      by (simp add: numeral_2_eq_2)
    then show ?thesis using last
      by (auto simp add: remove_padding_def butlast_append)
  qed
qed

lemma forgiving_decode_encode: "forgiving_base64_decode (base64_encode P) = Some P"
proof -
  let ?cs = "map b64_char (sextets_of P)"
  let ?k = "(3 - length P mod 3) mod 3"
  have k: "?k \<le> 2" by simp
  have filt: "filter (\<lambda>c. \<not> ascii_whitespace c) (base64_encode P) = base64_encode P"
    by (simp add: base64_encode_def b64_chars_not_whitespace sextets_of_bound)
  have strip: "remove_padding (base64_encode P) = ?cs"
    unfolding base64_encode_def
    by (rule remove_padding_pad [OF b64_chars_not_pad [OF sextets_of_bound] k])
  have len: "length ?cs mod 4 \<noteq> 1"
    using length_sextets_of_mod [of P] by simp
  show ?thesis
    using len
    by (simp add: forgiving_base64_decode_def filt length_base64_encode strip
        comp_def those_index_of sextets_of_bound decode_sextets_of)
qed

section \<open>The claims about the header builder\<close>

lemma bytes_at_prefix:
  "off + n \<le> length h \<Longrightarrow> bytes_at (h @ p) off n = bytes_at h off n"
  by (simp add: bytes_at_def)

lemma spec_header_fields:
  "bytes_at (spec_header l r c b) 0 4 = ascii ''RIFF''"
  "bytes_at (spec_header l r c b) 4 4 = le32 (ToUint32 (lit 36 + l))"
  "bytes_at (spec_header l r c b) 8 4 = ascii ''WAVE''"
  "bytes_at (spec_header l r c b) 12 4 = ascii ''fmt ''"
  "bytes_at (spec_header l r c b) 16 4 = le32 16"
  "bytes_at (spec_header l r c b) 20 2 = le16 1"
  "bytes_at (spec_header l r c b) 22 2 = le16 (ToUint16 c)"
  "bytes_at (spec_header l r c b) 24 4 = le32 (ToUint32 r)"
  "bytes_at (spec_header l r c b) 28 4 = le32 (ToUint32 (r * c * (b / lit 8)))"
  "bytes_at (spec_header l r c b) 32 2 = le16 (ToUint16 (c * (b / lit 8)))"
  "bytes_at (spec_header l r c b) 34 2 = le16 (ToUint16 b)"
  "bytes_at (spec_header l r c b) 36 4 = ascii ''data''"
  "bytes_at (spec_header l r c b) 40 4 = le32 (ToUint32 l)"
  by (simp_all add: bytes_at_def spec_header_def)

lemma u32_at_spec_header:
  "u32_at (spec_header l r c b) 24 = unat (ToUint32 r)"
  "u32_at (spec_header l r c b) 28 = unat (ToUint32 (r * c * (b / lit 8)))"
  "u32_at (spec_header l r c b) 4 = unat (ToUint32 (lit 36 + l))"
  "u32_at (spec_header l r c b) 40 = unat (ToUint32 l)"
  by (simp_all add: u32_at_def spec_header_fields le_value_le32)

lemma u16_at_spec_header:
  "u16_at (spec_header l r c b) 22 = unat (ToUint16 c)"
  "u16_at (spec_header l r c b) 32 = unat (ToUint16 (c * (b / lit 8)))"
  "u16_at (spec_header l r c b) 34 = unat (ToUint16 b)"
  by (simp_all add: u16_at_def spec_header_fields le_value_le16)

lemma below_2_53: "n < 2 ^ 32 \<Longrightarrow> (n::nat) < 2 ^ 53"
  by simp

lemma size_fields_exact:
  assumes "36 + n < 2 ^ 32"
  shows "u32_at (spec_header (lit n) r c b) 4 = 36 + n"
    "u32_at (spec_header (lit n) r c b) 40 = n"
proof -
  have "lit 36 + lit n = lit (36 + n)"
    using assms by (intro lit_add below_2_53)
  then show "u32_at (spec_header (lit n) r c b) 4 = 36 + n"
    using assms by (simp only: u32_at_spec_header unat_ToUint32_lit)
  have "n < 2 ^ 32" using assms by simp
  then show "u32_at (spec_header (lit n) r c b) 40 = n"
    by (simp only: u32_at_spec_header unat_ToUint32_lit)
qed

text \<open>
  Claim C2. For every \<open>dataLength\<close>, \<open>sampleRate\<close>, \<open>numChannels\<close> and \<open>bitsPerSample\<close>
  (every double, \<open>NaN\<close> and the infinities included), and in every store,
  \<open>createWavHeader\<close> returns a fresh buffer of exactly 44 bytes that holds
  \<^verbatim>\<open>"RIFF"\<close> at 0, \<open>36 + dataLength\<close> as a little-endian u32 at 4, \<^verbatim>\<open>"WAVE"\<close> at 8,
  \<^verbatim>\<open>"fmt "\<close> at 12, 16 as a u32 at 16, 1 as a u16 at 20, the channel count as a u16 at 22,
  the sample rate as a u32 at 24, the byte rate as a u32 at 28, the block align as a u16 at
  32, the bits per sample as a u16 at 34, \<^verbatim>\<open>"data"\<close> at 36 and \<open>dataLength\<close> as a u32 at 40,
  every integer field least significant byte first. The sums, products and quotients are
  those of the source, on doubles, and a number becomes a u32 or a u16 by the conversion of
  \<^verbatim>\<open>setUint32\<close> and \<^verbatim>\<open>setUint16\<close>: truncation, then reduction modulo \<open>2 ^ 32\<close> or \<open>2 ^ 16\<close>.
  So when the payload length is a natural number \<open>n\<close> with \<open>36 + n < 2 ^ 32\<close>, the u32 at
  offset 4 reads \<open>36 + n\<close> and the u32 at offset 40 reads \<open>n\<close>.
\<close>

theorem createWavHeader_layout:
  "\<exists>h. createWavHeader dataLength sampleRate numChannels bitsPerSample s =
          Inr (length s, s @ [h])
     \<and> length h = 44
     \<and> bytes_at h 0 4 = ascii ''RIFF''
     \<and> bytes_at h 4 4 = le32 (ToUint32 (lit 36 + dataLength))
     \<and> bytes_at h 8 4 = ascii ''WAVE''
     \<and> bytes_at h 12 4 = ascii ''fmt ''
     \<and> bytes_at h 16 4 = le32 16
     \<and> bytes_at h 20 2 = le16 1
     \<and> bytes_at h 22 2 = le16 (ToUint16 numChannels)
     \<and> bytes_at h 24 4 = le32 (ToUint32 sampleRate)
     \<and> bytes_at h 28 4 =
         le32 (ToUint32 (sampleRate * numChannels * (bitsPerSample / lit 8)))
     \<and> bytes_at h 32 2 = le16 (ToUint16 (numChannels * (bitsPerSample / lit 8)))
     \<and> bytes_at h 34 2 = le16 (ToUint16 bitsPerSample)
     \<and> bytes_at h 36 4 = ascii ''data''
     \<and> bytes_at h 40 4 = le32 (ToUint32 dataLength)
     \<and> (\<forall>n. dataLength = lit n \<and> 36 + n < 2 ^ 32 \<longrightarrow>
            u32_at h 4 = 36 + n \<and> u32_at h 40 = n)"
proof -
  let ?h = "spec_header dataLength sampleRate numChannels bitsPerSample"
  have "\<forall>n. dataLength = lit n \<and> 36 + n < 2 ^ 32 \<longrightarrow>
            u32_at ?h 4 = 36 + n \<and> u32_at ?h 40 = n"
    by (auto simp only: size_fields_exact)
  then show ?thesis
    by (intro exI [of _ ?h] conjI createWavHeader_run length_spec_header spec_header_fields)
qed

text \<open>Claim C2 at two inputs. For a payload of 48000 bytes and the default profile: the tag
  \<^verbatim>\<open>RIFF\<close>, the chunk size 48036 and the data size 48000, as bytes and as numbers. For a
  data length of \<open>2 ^ 53 - 1\<close>, where the sum \<open>36 + dataLength\<close> is rounded to
  \<open>2 ^ 53 + 36\<close>: the bytes 36, 0, 0, 0 at offset 4.\<close>

theorem createWavHeader_layout_witness:
  "(\<exists>h. createWavHeader (lit 48000) (lit 24000) (lit 1) (lit 16) [] = Inr (0, [h])
     \<and> length h = 44
     \<and> bytes_at h 0 4 = [0x52, 0x49, 0x46, 0x46]
     \<and> bytes_at h 4 4 = [0xA4, 0xBB, 0, 0]
     \<and> u32_at h 4 = 48036
     \<and> bytes_at h 40 4 = [0x80, 0xBB, 0, 0]
     \<and> u32_at h 40 = 48000)
   \<and> (\<exists>h. createWavHeader (lit 9007199254740991) (lit 1) (lit 1) (lit 8) [] = Inr (0, [h])
     \<and> bytes_at h 4 4 = [36, 0, 0, 0])"
proof (rule conjI)
  from createWavHeader_layout [of "lit 48000" "lit 24000" "lit 1" "lit 16" "[]"]
  obtain h where h: "createWavHeader (lit 48000) (lit 24000) (lit 1) (lit 16) [] =
        Inr (length ([]::store), [] @ [h])"
    and l: "length h = 44"
    and b: "bytes_at h 0 4 = ascii ''RIFF''"
      "bytes_at h 4 4 = le32 (ToUint32 (lit 36 + lit 48000))"
      "bytes_at h 40 4 = le32 (ToUint32 (lit 48000))"
    and n: "\<forall>n. lit 48000 = lit n \<and> 36 + n < 2 ^ 32 \<longrightarrow>
            u32_at h 4 = 36 + n \<and> u32_at h 40 = n"
    by (elim exE conjE) (rule that)
  have "lit 48000 = lit 48000 \<and> 36 + (48000::nat) < 2 ^ 32" by simp
  then have "u32_at h 4 = 36 + 48000 \<and> u32_at h 40 = 48000"
    by (rule n [THEN spec, THEN mp])
  then show "\<exists>h. createWavHeader (lit 48000) (lit 24000) (lit 1) (lit 16) [] = Inr (0, [h])
     \<and> length h = 44
     \<and> bytes_at h 0 4 = [0x52, 0x49, 0x46, 0x46]
     \<and> bytes_at h 4 4 = [0xA4, 0xBB, 0, 0]
     \<and> u32_at h 4 = 48036
     \<and> bytes_at h 40 4 = [0x80, 0xBB, 0, 0]
     \<and> u32_at h 40 = 48000"
    using h l b by (simp add: ascii_def le32_def lit_add)
next
  from createWavHeader_layout [of "lit 9007199254740991" "lit 1" "lit 1" "lit 8" "[]"]
  obtain h where h: "createWavHeader (lit 9007199254740991) (lit 1) (lit 1) (lit 8) [] =
        Inr (length ([]::store), [] @ [h])"
    and b: "bytes_at h 4 4 = le32 (ToUint32 (lit 36 + lit 9007199254740991))"
    by (elim exE conjE) (rule that)
  have "le32 (ToUint32 (lit 36 + lit 9007199254740991)) = [36, 0, 0, 0]"
    by (simp only: add_above_2_53 ToUint32_lit) (simp add: le32_def)
  then show "\<exists>h. createWavHeader (lit 9007199254740991) (lit 1) (lit 1) (lit 8) [] =
        Inr (0, [h]) \<and> bytes_at h 4 4 = [36, 0, 0, 0]"
    using h b by simp
qed

text \<open>
  Claim C3 says that the header builder fails with \<^verbatim>\<open>InvalidFormatProfileError\<close> when a
  numeric parameter is not positive, and in particular when the sample rate is 0. The
  source checks nothing: with a payload of 48000 bytes and a sample rate of 0 it returns a
  header, whose sample rate and byte rate fields are 0.
\<close>

theorem createWavHeader_sampleRate_0_counterexample:
  "createWavHeader (lit 48000) (lit 0) (lit 1) (lit 16) [] =
     Inr (0, [[0x52, 0x49, 0x46, 0x46, 0xA4, 0xBB, 0, 0, 0x57, 0x41, 0x56, 0x45,
               0x66, 0x6D, 0x74, 0x20, 16, 0, 0, 0, 1, 0, 1, 0, 0, 0, 0, 0, 0, 0, 0, 0,
               2, 0, 16, 0, 0x64, 0x61, 0x74, 0x61, 0x80, 0xBB, 0, 0]])"
  by (simp add: createWavHeader_run [of _ _ _ _ "[]", simplified] spec_header_def
      lit_add lit_mul lit_div ascii_def le32_def le16_def)

lemma zero_rate:
  "ToUint32 (lit 0) = 0"
  "ToUint32 (lit 0 * numChannels * x) = 0"
proof -
  show "ToUint32 (lit 0) = 0" by simp
  have z: "lit 0 * numChannels = NaN \<or> (\<exists>t. lit 0 * numChannels = Fin t 0)"
    by (cases numChannels)
       (simp_all add: times_number_def lit_def fl_def round_magnitude_def)
  have "ToUint32 (NaN * x) = 0"
    by (simp add: times_number_def ToUint32_def js_truncate_def)
  moreover have "ToUint32 (Fin t 0 * x) = 0" for t
    by (cases x)
       (simp_all add: times_number_def fl_def round_magnitude_def ToUint32_def
         js_truncate_def)
  ultimately show "ToUint32 (lit 0 * numChannels * x) = 0"
    using z by auto
qed

text \<open>
  Claim C3, amended. The header builder validates none of its parameters and never fails:
  for every \<open>dataLength\<close>, \<open>sampleRate\<close>, \<open>numChannels\<close> and \<open>bitsPerSample\<close> (zero, negative
  and fractional values, \<open>NaN\<close>, the infinities and bit depths that are no multiple of 8
  included) it returns a 44-byte header; with the sample rate 0 the sample rate and byte
  rate fields hold 0.
\<close>

theorem createWavHeader_never_fails:
  "(\<exists>h. createWavHeader dataLength sampleRate numChannels bitsPerSample s =
           Inr (length s, s @ [h]) \<and> length h = 44)
   \<and> (\<exists>h. createWavHeader dataLength (lit 0) numChannels bitsPerSample s =
           Inr (length s, s @ [h]) \<and> length h = 44
           \<and> u32_at h 24 = 0 \<and> u32_at h 28 = 0)"
proof (intro conjI)
  show "\<exists>h. createWavHeader dataLength sampleRate numChannels bitsPerSample s =
           Inr (length s, s @ [h]) \<and> length h = 44"
    by (intro exI [of _ "spec_header dataLength sampleRate numChannels bitsPerSample"] conjI
        createWavHeader_run length_spec_header)
  show "\<exists>h. createWavHeader dataLength (lit 0) numChannels bitsPerSample s =
           Inr (length s, s @ [h]) \<and> length h = 44
           \<and> u32_at h 24 = 0 \<and> u32_at h 28 = 0"
    by (rule exI [of _ "spec_header dataLength (lit 0) numChannels bitsPerSample"])
       (simp add: createWavHeader_run u32_at_spec_header zero_rate)
qed

section \<open>The claims about the assembler\<close>

lemma decode_QUJDRA:
  "forgiving_base64_decode (js_str ''QUJDRA=='') = Some [0x41, 0x42, 0x43, 0x44]"
  by (simp add: forgiving_base64_decode_def js_str_def ascii_whitespace_def remove_padding_def
      base64_alphabet_def)

lemma decode_empty: "forgiving_base64_decode [] = Some []"
  by (simp add: forgiving_base64_decode_def remove_padding_def)

text \<open>
  Claim C1. For every base64 input that decodes to a byte sequence \<open>P\<close>, for every sample
  rate argument and in every store, \<open>pcmToWavBlob\<close> returns a blob of exactly
  \<open>44 + length P\<close> bytes, whose bytes from index 44 on are \<open>P\<close>, with the MIME type
  \<^verbatim>\<open>audio/wav\<close>.
\<close>

theorem pcmToWavBlob_payload:
  assumes "forgiving_base64_decode base64Audio = Some P"
  shows "\<exists>b s'. pcmToWavBlob base64Audio sampleRate s = Inr (b, s')
           \<and> length (blob_bytes b) = 44 + length P
           \<and> drop 44 (blob_bytes b) = P
           \<and> blob_mime b = js_str ''audio/wav''"
  by (simp add: pcmToWavBlob_Some [OF assms])

text \<open>Claim C1 at the input \<^verbatim>\<open>"QUJDRA=="\<close>, which decodes to the four bytes \<^verbatim>\<open>ABCD\<close>.\<close>

theorem pcmToWavBlob_payload_witness:
  "forgiving_base64_decode (js_str ''QUJDRA=='') = Some [0x41, 0x42, 0x43, 0x44]
   \<and> (\<exists>b s'. pcmToWavBlob (js_str ''QUJDRA=='') None [] = Inr (b, s')
           \<and> length (blob_bytes b) = 48
           \<and> drop 44 (blob_bytes b) = [0x41, 0x42, 0x43, 0x44]
           \<and> blob_mime b = js_str ''audio/wav'')"
  using pcmToWavBlob_payload [OF decode_QUJDRA, of None "[]"] decode_QUJDRA by simp

lemma pcmToWavBlob_cases:
  assumes "pcmToWavBlob base64Audio sampleRate s = Inr (b, s')"
  obtains P where "forgiving_base64_decode base64Audio = Some P"
    and "blob_bytes b = spec_header (lit (length P)) (rate_of sampleRate) (lit 1) (lit 16) @ P"
proof (cases "forgiving_base64_decode base64Audio")
  case None
  then show ?thesis
    using assms pcmToWavBlob_None [of base64Audio sampleRate s] by simp
next
  case (Some P)
  then show ?thesis
    using assms that [of P] pcmToWavBlob_Some [of base64Audio P sampleRate s] by auto
qed

text \<open>
  Claim C7. Whenever \<open>pcmToWavBlob\<close> returns a blob (that is, for every input it accepts),
  the bytes \<open>[0, 4)\<close> of the blob are \<^verbatim>\<open>"RIFF"\<close>, the bytes \<open>[8, 12)\<close> are \<^verbatim>\<open>"WAVE"\<close>, the
  bytes \<open>[12, 16)\<close> are \<^verbatim>\<open>"fmt "\<close> and the bytes \<open>[36, 40)\<close> are \<^verbatim>\<open>"data"\<close>.
\<close>

theorem pcmToWavBlob_tags:
  assumes "pcmToWavBlob base64Audio sampleRate s = Inr (b, s')"
  shows "bytes_at (blob_bytes b) 0 4 = ascii ''RIFF''
       \<and> bytes_at (blob_bytes b) 8 4 = ascii ''WAVE''
       \<and> bytes_at (blob_bytes b) 12 4 = ascii ''fmt ''
       \<and> bytes_at (blob_bytes b) 36 4 = ascii ''data''"
  using assms
  by (elim pcmToWavBlob_cases) (simp add: bytes_at_prefix spec_header_fields)

text \<open>Claim C7 at the input \<^verbatim>\<open>"QUJDRA=="\<close>, the tags written out as bytes.\<close>

theorem pcmToWavBlob_tags_witness:
  "\<exists>b s'. pcmToWavBlob (js_str ''QUJDRA=='') None [] = Inr (b, s')
       \<and> bytes_at (blob_bytes b) 0 4 = [0x52, 0x49, 0x46, 0x46]
       \<and> bytes_at (blob_bytes b) 8 4 = [0x57, 0x41, 0x56, 0x45]
       \<and> bytes_at (blob_bytes b) 12 4 = [0x66, 0x6D, 0x74, 0x20]
       \<and> bytes_at (blob_bytes b) 36 4 = [0x64, 0x61, 0x74, 0x61]"
proof -
  obtain b s' where run: "pcmToWavBlob (js_str ''QUJDRA=='') None [] = Inr (b, s')"
    using pcmToWavBlob_Some [OF decode_QUJDRA, of None "[]"] by blast
  show ?thesis
    using run pcmToWavBlob_tags [OF run] by (simp add: ascii_def)
qed

text \<open>
  Claim C10. When the base64 input decodes to the empty byte sequence, \<open>pcmToWavBlob\<close>
  raises no error: it returns a blob of 44 bytes, the very header that \<open>createWavHeader\<close>
  builds for a payload of length 0, whose u32 at offset 4 is 36 and whose u32 at offset 40
  is 0.
\<close>

theorem pcmToWavBlob_empty_payload:
  assumes "forgiving_base64_decode base64Audio = Some []"
  shows "\<exists>b s' h t. pcmToWavBlob base64Audio sampleRate s = Inr (b, s')
           \<and> createWavHeader (lit 0) (rate_of sampleRate) (lit 1) (lit 16) s = Inr (h, t)
           \<and> blob_bytes b = t ! h
           \<and> length (blob_bytes b) = 44
           \<and> u32_at (blob_bytes b) 4 = 36
           \<and> u32_at (blob_bytes b) 40 = 0"
  by (simp add: pcmToWavBlob_Some [OF assms] createWavHeader_run u32_at_spec_header lit_add)

text \<open>Claim C10 at the empty input string.\<close>

theorem pcmToWavBlob_empty_payload_witness:
  "forgiving_base64_decode [] = Some []
   \<and> (\<exists>b s'. pcmToWavBlob [] None [] = Inr (b, s')
           \<and> length (blob_bytes b) = 44
           \<and> u32_at (blob_bytes b) 4 = 36
           \<and> u32_at (blob_bytes b) 40 = 0)"
  using pcmToWavBlob_empty_payload [OF decode_empty, of None "[]"] decode_empty by auto

section \<open>The claims about the format profile\<close>

lemma u16_at_prefix: "off + 2 \<le> length h \<Longrightarrow> u16_at (h @ p) off = u16_at h off"
  by (simp add: u16_at_def bytes_at_prefix)

lemma u32_at_prefix: "off + 4 \<le> length h \<Longrightarrow> u32_at (h @ p) off = u32_at h off"
  by (simp add: u32_at_def bytes_at_prefix)

lemma default_profile [simp]:
  "lit 16 / lit 8 = lit 2"
  "lit (Suc 0) * lit 2 = lit 2"
  "lit 24000 * lit (Suc 0) = lit 24000"
  "lit 24000 * lit 2 = lit 48000"
  by (simp_all add: lit_mul lit_div)

text \<open>
  Claim C4 says that a caller of the assembler may override the channel count and the bit
  depth as well as the sample rate. \<open>pcmToWavBlob\<close> takes the base64 text and the sample rate
  only; the channel count 1 and the bit depth 16 are constants of its body. So no call of
  it, with any input, any sample rate argument and in any store, returns a blob whose
  channel count field is not 1 or whose bits-per-sample field is not 16.
\<close>

theorem pcmToWavBlob_profile_counterexample:
  "\<not> (\<exists>base64Audio sampleRate s b s'.
          pcmToWavBlob base64Audio sampleRate s = Inr (b, s')
        \<and> \<not> (u16_at (blob_bytes b) 22 = 1 \<and> u16_at (blob_bytes b) 34 = 16))"
proof
  assume "\<exists>base64Audio sampleRate s b s'.
          pcmToWavBlob base64Audio sampleRate s = Inr (b, s')
        \<and> \<not> (u16_at (blob_bytes b) 22 = 1 \<and> u16_at (blob_bytes b) 34 = 16)"
  then obtain base64Audio sampleRate s b s'
    where run: "pcmToWavBlob base64Audio sampleRate s = Inr (b, s')"
      and no: "\<not> (u16_at (blob_bytes b) 22 = 1 \<and> u16_at (blob_bytes b) 34 = 16)"
    by blast
  from run have "u16_at (blob_bytes b) 22 = 1 \<and> u16_at (blob_bytes b) 34 = 16"
    by (elim pcmToWavBlob_cases) (simp add: u16_at_prefix u16_at_spec_header)
  with no show False by contradiction
qed

text \<open>
  Claim C4, amended. Called without a sample rate, the assembler writes the default
  profile: sample rate 24000, one channel, 16 bits, hence byte rate 48000 and block align 2.
  The caller may override the sample rate, and only it: a sample rate \<open>r\<close> is written to the
  sample rate field and \<open>r * 1 * (16 / 8)\<close>, computed on doubles, to the byte rate field,
  while the channel count stays 1, the bit depth 16 and the block align 2.
\<close>

theorem pcmToWavBlob_profile:
  assumes "forgiving_base64_decode base64Audio = Some P"
  shows "(\<exists>b s'. pcmToWavBlob base64Audio None s = Inr (b, s')
            \<and> u16_at (blob_bytes b) 22 = 1
            \<and> u32_at (blob_bytes b) 24 = 24000
            \<and> u32_at (blob_bytes b) 28 = 48000
            \<and> u16_at (blob_bytes b) 32 = 2
            \<and> u16_at (blob_bytes b) 34 = 16)
       \<and> (\<exists>b s'. pcmToWavBlob base64Audio (Some r) s = Inr (b, s')
            \<and> u16_at (blob_bytes b) 22 = 1
            \<and> bytes_at (blob_bytes b) 24 4 = le32 (ToUint32 r)
            \<and> bytes_at (blob_bytes b) 28 4 = le32 (ToUint32 (r * lit 1 * (lit 16 / lit 8)))
            \<and> u16_at (blob_bytes b) 32 = 2
            \<and> u16_at (blob_bytes b) 34 = 16)"
  by (simp add: pcmToWavBlob_Some [OF assms] rate_of_def u16_at_prefix u32_at_prefix
      u16_at_spec_header u32_at_spec_header bytes_at_prefix spec_header_fields)

text \<open>Claim C4, amended, at the input \<^verbatim>\<open>"QUJDRA=="\<close> and the sample rate 44100, whose
  bytes are \<^verbatim>\<open>44 AC 00 00\<close>; the byte rate 88200 is \<^verbatim>\<open>88 58 01 00\<close>.\<close>

theorem pcmToWavBlob_profile_witness:
  "forgiving_base64_decode (js_str ''QUJDRA=='') = Some [0x41, 0x42, 0x43, 0x44]
   \<and> (\<exists>b s'. pcmToWavBlob (js_str ''QUJDRA=='') None [] = Inr (b, s')
            \<and> u16_at (blob_bytes b) 22 = 1
            \<and> u32_at (blob_bytes b) 24 = 24000
            \<and> u32_at (blob_bytes b) 28 = 48000
            \<and> u16_at (blob_bytes b) 32 = 2
            \<and> u16_at (blob_bytes b) 34 = 16)
   \<and> (\<exists>b s'. pcmToWavBlob (js_str ''QUJDRA=='') (Some (lit 44100)) [] = Inr (b, s')
            \<and> u16_at (blob_bytes b) 22 = 1
            \<and> bytes_at (blob_bytes b) 24 4 = [0x44, 0xAC, 0, 0]
            \<and> bytes_at (blob_bytes b) 28 4 = [0x88, 0x58, 0x01, 0]
            \<and> u16_at (blob_bytes b) 32 = 2
            \<and> u16_at (blob_bytes b) 34 = 16)"
proof -
  have w: "le32 (ToUint32 (lit 44100)) = [0x44, 0xAC, 0, 0]"
    "le32 (ToUint32 (lit 44100 * lit 1 * (lit 16 / lit 8))) = [0x88, 0x58, 0x01, 0]"
    by (simp_all add: le32_def lit_mul)
  show ?thesis
    using pcmToWavBlob_profile [OF decode_QUJDRA, of "[]" "lit 44100"] decode_QUJDRA
    unfolding w by simp
qed

lemma field_exact:
  "n < 2 ^ 32 \<Longrightarrow> le_value (le32 (ToUint32 (lit n))) = n"
  "m < 2 ^ 16 \<Longrightarrow> le_value (le16 (ToUint16 (lit m))) = m"
  by (simp_all only: le_value_le32 le_value_le16 unat_ToUint32_lit unat_ToUint16_lit)

lemma rate_product_exact:
  assumes "a < 2 ^ 32" "c < 2 ^ 16" "8 * k < 2 ^ 16"
  shows "a * c * k < 2 ^ 32 \<Longrightarrow> lit a * lit c * (lit (8 * k) / lit 8) = lit (a * c * k)"
    "c * k < 2 ^ 16 \<Longrightarrow> lit c * (lit (8 * k) / lit 8) = lit (c * k)"
proof -
  have k: "k < 2 ^ 53" using assms(3) by simp
  have q: "lit (8 * k) / lit 8 = lit k"
    using lit_div [of 8 "8 * k"] k by simp
  have "a * c \<le> 2 ^ 32 * 2 ^ 16"
    using assms(1,2) by (intro mult_le_mono) simp_all
  then have "a * c < 2 ^ 53" by simp
  then have ac: "lit a * lit c = lit (a * c)" by (rule lit_mul)
  show "lit a * lit c * (lit (8 * k) / lit 8) = lit (a * c * k)" if "a * c * k < 2 ^ 32"
    using that by (simp only: q ac) (intro lit_mul below_2_53)
  show "lit c * (lit (8 * k) / lit 8) = lit (c * k)" if "c * k < 2 ^ 16"
    using that by (simp only: q) (intro lit_mul, simp)
qed

text \<open>
  Claim C6. The header builder writes \<open>sampleRate * numChannels * (bitsPerSample / 8)\<close> to
  the byte rate field (a u32 at offset 28) and \<open>numChannels * (bitsPerSample / 8)\<close> to the
  block align field (a u16 at offset 32), the products and the quotient being those of the
  source, on doubles: the field holds the conversion of that number, and reads back as the
  number itself whenever that is a natural number below \<open>2 ^ 32\<close>, respectively \<open>2 ^ 16\<close>.
  In particular, for a sample rate \<open>a\<close>, a channel count \<open>c\<close> and a bit depth \<open>8 * k\<close> that
  are natural numbers and fit their own fields (a u32, a u16 and a u16), the byte rate
  field reads \<open>a * c * k\<close> when that is below \<open>2 ^ 32\<close> and the block align field reads
  \<open>c * k\<close> when that is below \<open>2 ^ 16\<close>. Assembling any base64 input that decodes to 48000
  zero bytes, with the default profile, yields a blob of 48044 bytes whose byte rate field
  is 48000 and whose block align field is 2.
\<close>

theorem byte_rate_block_align:
  "(\<exists>h. createWavHeader dataLength sampleRate numChannels bitsPerSample s =
           Inr (length s, s @ [h])
       \<and> bytes_at h 28 4 =
           le32 (ToUint32 (sampleRate * numChannels * (bitsPerSample / lit 8)))
       \<and> bytes_at h 32 2 = le16 (ToUint16 (numChannels * (bitsPerSample / lit 8)))
       \<and> (\<forall>n. n < 2 ^ 32 \<and> sampleRate * numChannels * (bitsPerSample / lit 8) = lit n
              \<longrightarrow> u32_at h 28 = n)
       \<and> (\<forall>n. n < 2 ^ 16 \<and> numChannels * (bitsPerSample / lit 8) = lit n
              \<longrightarrow> u16_at h 32 = n)
       \<and> (\<forall>a c k. sampleRate = lit a \<and> numChannels = lit c \<and> bitsPerSample = lit (8 * k)
              \<and> a < 2 ^ 32 \<and> c < 2 ^ 16 \<and> 8 * k < 2 ^ 16 \<longrightarrow>
              (a * c * k < 2 ^ 32 \<longrightarrow> u32_at h 28 = a * c * k)
              \<and> (c * k < 2 ^ 16 \<longrightarrow> u16_at h 32 = c * k)))
   \<and> (forgiving_base64_decode base64Audio = Some (replicate 48000 0) \<longrightarrow>
       (\<exists>b s'. pcmToWavBlob base64Audio None s = Inr (b, s')
           \<and> length (blob_bytes b) = 48044
           \<and> u32_at (blob_bytes b) 28 = 48000
           \<and> u16_at (blob_bytes b) 32 = 2))"
proof (intro conjI impI)
  let ?h = "spec_header dataLength sampleRate numChannels bitsPerSample"
  have n32: "u32_at ?h 28 = n"
    if "n < 2 ^ 32 \<and> sampleRate * numChannels * (bitsPerSample / lit 8) = lit n" for n
    using that by (simp only: u32_at_def spec_header_fields field_exact)
  have n16: "u16_at ?h 32 = n"
    if "n < 2 ^ 16 \<and> numChannels * (bitsPerSample / lit 8) = lit n" for n
    using that by (simp only: u16_at_def spec_header_fields field_exact)
  have nat: "(a * c * k < 2 ^ 32 \<longrightarrow> u32_at ?h 28 = a * c * k)
      \<and> (c * k < 2 ^ 16 \<longrightarrow> u16_at ?h 32 = c * k)"
    if "sampleRate = lit a \<and> numChannels = lit c \<and> bitsPerSample = lit (8 * k)
        \<and> a < 2 ^ 32 \<and> c < 2 ^ 16 \<and> 8 * k < 2 ^ 16" for a c k
  proof (intro conjI impI)
    from that have v: "sampleRate = lit a" "numChannels = lit c" "bitsPerSample = lit (8 * k)"
      and r: "a < 2 ^ 32" "c < 2 ^ 16" "8 * k < 2 ^ 16"
      by simp_all
    show "u32_at ?h 28 = a * c * k" if "a * c * k < 2 ^ 32"
      using that rate_product_exact(1) [OF r that] unfolding v [symmetric]
      by (intro n32 conjI)
    show "u16_at ?h 32 = c * k" if "c * k < 2 ^ 16"
      using that rate_product_exact(2) [OF r that] unfolding v [symmetric]
      by (intro n16 conjI)
  qed
  show "\<exists>h. createWavHeader dataLength sampleRate numChannels bitsPerSample s =
           Inr (length s, s @ [h])
       \<and> bytes_at h 28 4 =
           le32 (ToUint32 (sampleRate * numChannels * (bitsPerSample / lit 8)))
       \<and> bytes_at h 32 2 = le16 (ToUint16 (numChannels * (bitsPerSample / lit 8)))
       \<and> (\<forall>n. n < 2 ^ 32 \<and> sampleRate * numChannels * (bitsPerSample / lit 8) = lit n
              \<longrightarrow> u32_at h 28 = n)
       \<and> (\<forall>n. n < 2 ^ 16 \<and> numChannels * (bitsPerSample / lit 8) = lit n
              \<longrightarrow> u16_at h 32 = n)
       \<and> (\<forall>a c k. sampleRate = lit a \<and> numChannels = lit c \<and> bitsPerSample = lit (8 * k)
              \<and> a < 2 ^ 32 \<and> c < 2 ^ 16 \<and> 8 * k < 2 ^ 16 \<longrightarrow>
              (a * c * k < 2 ^ 32 \<longrightarrow> u32_at h 28 = a * c * k)
              \<and> (c * k < 2 ^ 16 \<longrightarrow> u16_at h 32 = c * k))"
  proof (intro exI [of _ ?h] conjI allI)
    show "createWavHeader dataLength sampleRate numChannels bitsPerSample s =
           Inr (length s, s @ [?h])"
      by (rule createWavHeader_run)
    show "bytes_at ?h 28 4 =
        le32 (ToUint32 (sampleRate * numChannels * (bitsPerSample / lit 8)))"
      by (rule spec_header_fields)
    show "bytes_at ?h 32 2 = le16 (ToUint16 (numChannels * (bitsPerSample / lit 8)))"
      by (rule spec_header_fields)
    show "n < 2 ^ 32 \<and> sampleRate * numChannels * (bitsPerSample / lit 8) = lit n
              \<longrightarrow> u32_at ?h 28 = n" for n
      using n32 by blast
    show "n < 2 ^ 16 \<and> numChannels * (bitsPerSample / lit 8) = lit n
              \<longrightarrow> u16_at ?h 32 = n" for n
      using n16 by blast
    show "sampleRate = lit a \<and> numChannels = lit c \<and> bitsPerSample = lit (8 * k)
              \<and> a < 2 ^ 32 \<and> c < 2 ^ 16 \<and> 8 * k < 2 ^ 16 \<longrightarrow>
              (a * c * k < 2 ^ 32 \<longrightarrow> u32_at ?h 28 = a * c * k)
              \<and> (c * k < 2 ^ 16 \<longrightarrow> u16_at ?h 32 = c * k)" for a c k
      using nat [of a c k] by blast
  qed
next
  assume d: "forgiving_base64_decode base64Audio = Some (replicate 48000 0)"
  show "\<exists>b s'. pcmToWavBlob base64Audio None s = Inr (b, s')
           \<and> length (blob_bytes b) = 48044
           \<and> u32_at (blob_bytes b) 28 = 48000
           \<and> u16_at (blob_bytes b) 32 = 2"
    by (simp add: pcmToWavBlob_Some [OF d] rate_of_def u16_at_prefix u32_at_prefix
      u16_at_spec_header u32_at_spec_header)
qed

text \<open>Claim C6 at the default profile, at the standard encoding of 48000 zero bytes, at a
  sample rate of \<open>2 ^ 32 - 1\<close> with 65535 channels of 65528 bits, where the product is
  rounded to a multiple of 256 and the byte rate field holds the bytes 0, 32, 1, 224, and
  at the sample rate 0.7 (the double nearest to it) with 10 channels of 8 bits, where the
  product is rounded to 7.\<close>

theorem byte_rate_block_align_witness:
  "(\<exists>h. createWavHeader (lit 48000) (lit 24000) (lit 1) (lit 16) [] = Inr (0, [h])
       \<and> u32_at h 28 = 48000 \<and> u16_at h 32 = 2)
   \<and> forgiving_base64_decode (base64_encode (replicate 48000 0)) = Some (replicate 48000 0)
   \<and> (\<exists>b s'. pcmToWavBlob (base64_encode (replicate 48000 0)) None [] = Inr (b, s')
           \<and> length (blob_bytes b) = 48044
           \<and> u32_at (blob_bytes b) 28 = 48000
           \<and> u16_at (blob_bytes b) 32 = 2)
   \<and> (\<exists>h. createWavHeader (lit 0) (lit 4294967295) (lit 65535) (lit 65528) [] = Inr (0, [h])
       \<and> bytes_at h 28 4 = [0, 32, 1, 224])
   \<and> (\<exists>h. createWavHeader (lit 0) (Fin False (3152519739159347 / 4503599627370496))
             (lit 10) (lit 8) [] = Inr (0, [h])
       \<and> bytes_at h 28 4 = [7, 0, 0, 0])"
proof -
  have d: "forgiving_base64_decode (base64_encode (replicate 48000 0)) =
           Some (replicate 48000 0)"
    by (rule forgiving_decode_encode)
  note T = byte_rate_block_align [of "lit 48000" "lit 24000" "lit 1" "lit 16" "[]"
      "base64_encode (replicate 48000 0)"]
  have blob: "\<exists>b s'. pcmToWavBlob (base64_encode (replicate 48000 0)) None [] = Inr (b, s')
           \<and> length (blob_bytes b) = 48044
           \<and> u32_at (blob_bytes b) 28 = 48000
           \<and> u16_at (blob_bytes b) 32 = 2"
    by (rule T [THEN conjunct2, THEN mp, OF d])
  from T [THEN conjunct1]
  obtain h where h: "createWavHeader (lit 48000) (lit 24000) (lit 1) (lit 16) [] =
        Inr (length ([]::store), [] @ [h])"
    and n: "\<forall>a c k. lit 24000 = lit a \<and> lit 1 = lit c \<and> lit 16 = lit (8 * k)
              \<and> a < 2 ^ 32 \<and> c < 2 ^ 16 \<and> 8 * k < 2 ^ 16 \<longrightarrow>
              (a * c * k < 2 ^ 32 \<longrightarrow> u32_at h 28 = a * c * k)
              \<and> (c * k < 2 ^ 16 \<longrightarrow> u16_at h 32 = c * k)"
    by (elim exE conjE) (rule that)
  have "lit 24000 = lit 24000 \<and> lit 1 = lit 1 \<and> lit 16 = lit (8 * 2)
        \<and> (24000::nat) < 2 ^ 32 \<and> (1::nat) < 2 ^ 16 \<and> 8 * (2::nat) < 2 ^ 16"
    by simp
  then have "((24000::nat) * 1 * 2 < 2 ^ 32 \<longrightarrow> u32_at h 28 = 24000 * 1 * 2)
      \<and> ((1::nat) * 2 < 2 ^ 16 \<longrightarrow> u16_at h 32 = 1 * 2)"
    by (rule n [THEN spec, THEN spec, THEN spec, THEN mp])
  then have f: "u32_at h 28 = 48000" "u16_at h 32 = 2"
    by simp_all
  from byte_rate_block_align [of "lit 0" "lit 4294967295" "lit 65535" "lit 65528" "[]"
      "[]", THEN conjunct1]
  obtain g where g: "createWavHeader (lit 0) (lit 4294967295) (lit 65535) (lit 65528) [] =
        Inr (length ([]::store), [] @ [g])"
    and b: "bytes_at g 28 4 =
        le32 (ToUint32 (lit 4294967295 * lit 65535 * (lit 65528 / lit 8)))"
    by (elim exE conjE) (rule that)
  have "le32 (ToUint32 (lit 4294967295 * lit 65535 * (lit 65528 / lit 8))) = [0, 32, 1, 224]"
    by (simp only: byte_rate_wide) (simp add: le32_def)
  then have w: "\<exists>h. createWavHeader (lit 0) (lit 4294967295) (lit 65535) (lit 65528) [] =
        Inr (0, [h]) \<and> bytes_at h 28 4 = [0, 32, 1, 224]"
    using g b by simp
  let ?r = "Fin False (3152519739159347 / 4503599627370496)"
  from byte_rate_block_align [of "lit 0" ?r "lit 10" "lit 8" "[]" "[]", THEN conjunct1]
  obtain k where k: "createWavHeader (lit 0) ?r (lit 10) (lit 8) [] =
        Inr (length ([]::store), [] @ [k])"
    and c: "bytes_at k 28 4 = le32 (ToUint32 (?r * lit 10 * (lit 8 / lit 8)))"
    by (elim exE conjE) (rule that)
  have "lit 8 / lit 8 = lit 1" "lit 7 * lit 1 = lit 7"
    by (simp_all add: lit_div lit_mul)
  then have "le32 (ToUint32 (?r * lit 10 * (lit 8 / lit 8))) = [7, 0, 0, 0]"
    by (simp only: mul_fraction ToUint32_lit) (simp add: le32_def)
  then have x: "\<exists>h. createWavHeader (lit 0) ?r (lit 10) (lit 8) [] = Inr (0, [h])
        \<and> bytes_at h 28 4 = [7, 0, 0, 0]"
    using k c by simp
  show ?thesis using h f d blob w x by simp
qed

section \<open>The claims about the decoder\<close>

text \<open>
  Claim C8. For every byte sequence \<open>P\<close>, decoding the standard base64 encoding of \<open>P\<close> gives
  \<open>P\<close> back: \<^verbatim>\<open>atob\<close> returns the string whose code units are the bytes of \<open>P\<close>, and
  \<open>base64ToUint8Array\<close> returns, in every store, a fresh array holding \<open>P\<close>.
\<close>

theorem base64_round_trip:
  "atob (base64_encode P) = Inr (map ucast P)
   \<and> base64ToUint8Array (base64_encode P) s = Inr (length s, s @ [P])"
  by (simp add: atob_def forgiving_decode_encode base64ToUint8Array_Some)

lemma those_map_None_iff:
  "those (map f xs) = None \<longleftrightarrow> list_ex (\<lambda>x. f x = None) xs"
  by (induction xs) (auto split: option.splits)

lemma forgiving_None_iff: "forgiving_base64_decode data = None \<longleftrightarrow> atob_rejects data"
proof -
  define d1 where "d1 = filter (\<lambda>c. \<not> ascii_whitespace c) data"
  define d2 where "d2 = (if length d1 mod 4 = 0 then remove_padding d1 else d1)"
  have f: "forgiving_base64_decode data =
        (if length d2 mod 4 = 1 then None
         else (case those (map (\<lambda>c. index_of c base64_alphabet) d2) of
                 None \<Rightarrow> None
               | Some sextets \<Rightarrow> Some (decode_sextets sextets)))"
    by (simp only: forgiving_base64_decode_def Let_def d1_def d2_def)
  have r: "atob_rejects data \<longleftrightarrow>
        length d2 mod 4 = 1 \<or> list_ex (\<lambda>c. c \<notin> set base64_alphabet) d2"
    by (simp only: atob_rejects_def Let_def d1_def d2_def)
  have t: "those (map (\<lambda>c. index_of c base64_alphabet) d2) = None \<longleftrightarrow>
        list_ex (\<lambda>c. c \<notin> set base64_alphabet) d2"
    by (simp add: those_map_None_iff index_of_None_iff)
  show ?thesis
    unfolding f r t [symmetric] by (simp split: option.splits)
qed

lemma in_remove_padding:
  assumes "c \<in> set d" "c \<noteq> 0x3D"
  shows "c \<in> set (remove_padding d)"
proof -
  have keep: "c \<in> set (butlast xs)" if "c \<in> set xs" "xs \<noteq> []" "last xs = 0x3D" for xs
  proof -
    have "xs = butlast xs @ [last xs]" using that(2) by simp
    then have "set xs = set (butlast xs @ [last xs])" by simp
    then have "set xs = set (butlast xs) \<union> {last xs}" by simp
    with that assms(2) show ?thesis by auto
  qed
  show ?thesis
  proof (cases "d \<noteq> [] \<and> last d = 0x3D")
    case False
    then show ?thesis using assms(1) by (auto simp add: remove_padding_def)
  next
    case True
    then have k1: "c \<in> set (butlast d)" using keep [of d] assms(1) by simp
    show ?thesis
    proof (cases "butlast d \<noteq> [] \<and> last (butlast d) = 0x3D")
      case False
      with True k1 show ?thesis by (auto simp add: remove_padding_def)
    next
      case inner: True
      then have "c \<in> set (butlast (butlast d))" using keep [of "butlast d"] k1 by simp
      with True inner show ?thesis by (auto simp add: remove_padding_def)
    qed
  qed
qed

lemma foreign_char_rejected:
  assumes "c \<in> set data" "c \<notin> set base64_alphabet" "c \<noteq> 0x3D" "\<not> ascii_whitespace c"
  shows "atob_rejects data"
proof -
  let ?d1 = "filter (\<lambda>c. \<not> ascii_whitespace c) data"
  let ?d2 = "if length ?d1 mod 4 = 0 then remove_padding ?d1 else ?d1"
  have "c \<in> set ?d1" using assms by simp
  then have "c \<in> set ?d2" using assms(3) by (simp add: in_remove_padding)
  then have "list_ex (\<lambda>c. c \<notin> set base64_alphabet) ?d2"
    using assms(2) by (auto simp add: list_ex_iff)
  then show ?thesis by (simp add: atob_rejects_def Let_def)
qed

lemma rejects_invalid: "atob_rejects (js_str ''!!invalid!!'')"
  by (simp add: atob_rejects_def js_str_def ascii_whitespace_def remove_padding_def
      base64_alphabet_def)

text \<open>
  Claim C5 says that the decoder fails if and only if the input has a character outside the
  base64 alphabet or invalid padding. The source decodes with \<^verbatim>\<open>atob\<close>, which is forgiving:
  the input \<^verbatim>\<open>"QUJD RA=="\<close> has a space, a character outside the alphabet, and decodes to
  the four bytes \<^verbatim>\<open>ABCD\<close>.
\<close>

theorem base64ToUint8Array_whitespace_counterexample:
  "0x20 \<in> set (js_str ''QUJD RA=='') \<and> 0x20 \<notin> set base64_alphabet
   \<and> base64ToUint8Array (js_str ''QUJD RA=='') [] = Inr (0, [[0x41, 0x42, 0x43, 0x44]])"
proof -
  have "forgiving_base64_decode (js_str ''QUJD RA=='') = Some [0x41, 0x42, 0x43, 0x44]"
    by (simp add: forgiving_base64_decode_def js_str_def ascii_whitespace_def
        remove_padding_def base64_alphabet_def)
  then have "base64ToUint8Array (js_str ''QUJD RA=='') [] = Inr (0, [[0x41, 0x42, 0x43, 0x44]])"
    using base64ToUint8Array_Some [of "js_str ''QUJD RA==''" _ "[]"] by simp
  then show ?thesis
    by (simp add: js_str_def base64_alphabet_def)
qed

text \<open>
  Claim C5, amended. The decoder fails, with the \<^verbatim>\<open>InvalidCharacterError\<close> of \<^verbatim>\<open>atob\<close> (the
  \<^verbatim>\<open>MalformedEncodingError\<close> of the specification), if and only if the input, after the
  removal of ASCII whitespace and, when its length is then a multiple of 4, of one or two
  trailing \<^verbatim>\<open>=\<close>, has a length that leaves remainder 1 modulo 4 or has a character
  outside the alphabet. Every other input is decoded, whatever its bytes are: nothing else
  is validated. So an input with a character that is neither of the alphabet, nor \<^verbatim>\<open>=\<close>,
  nor ASCII whitespace fails, as \<^verbatim>\<open>"!!invalid!!"\<close> does.
\<close>

theorem base64ToUint8Array_failure:
  "(base64ToUint8Array base64 s = Inl InvalidCharacterError \<longleftrightarrow> atob_rejects base64)
   \<and> (\<not> atob_rejects base64 \<longrightarrow>
        (\<exists>P. forgiving_base64_decode base64 = Some P
           \<and> base64ToUint8Array base64 s = Inr (length s, s @ [P])))
   \<and> (c \<in> set base64 \<and> c \<notin> set base64_alphabet \<and> c \<noteq> 0x3D \<and> \<not> ascii_whitespace c
        \<longrightarrow> atob_rejects base64)
   \<and> atob_rejects (js_str ''!!invalid!!'')"
proof (intro conjI impI)
  show "base64ToUint8Array base64 s = Inl InvalidCharacterError \<longleftrightarrow> atob_rejects base64"
  proof (cases "forgiving_base64_decode base64")
    case None
    then show ?thesis
      using forgiving_None_iff [of base64] by (simp add: base64ToUint8Array_None)
  next
    case (Some P)
    then show ?thesis
      using forgiving_None_iff [of base64] by (simp add: base64ToUint8Array_Some)
  qed
next
  assume "\<not> atob_rejects base64"
  then obtain P where "forgiving_base64_decode base64 = Some P"
    using forgiving_None_iff [of base64] by (cases "forgiving_base64_decode base64") auto
  then show "\<exists>P. forgiving_base64_decode base64 = Some P
           \<and> base64ToUint8Array base64 s = Inr (length s, s @ [P])"
    by (simp add: base64ToUint8Array_Some)
next
  assume "c \<in> set base64 \<and> c \<notin> set base64_alphabet \<and> c \<noteq> 0x3D \<and> \<not> ascii_whitespace c"
  then show "atob_rejects base64"
    by (auto intro: foreign_char_rejected)
next
  show "atob_rejects (js_str ''!!invalid!!'')"
    by (rule rejects_invalid)
qed

text \<open>Claim C5, amended, at \<^verbatim>\<open>"!!invalid!!"\<close> with its character \<^verbatim>\<open>!\<close>, which is rejected,
  and at \<^verbatim>\<open>"QUJD RA=="\<close>, which is not.\<close>

theorem base64ToUint8Array_failure_witness:
  "base64ToUint8Array (js_str ''!!invalid!!'') [] = Inl InvalidCharacterError
   \<and> 0x21 \<in> set (js_str ''!!invalid!!'') \<and> 0x21 \<notin> set base64_alphabet
   \<and> \<not> ascii_whitespace 0x21
   \<and> atob_rejects (js_str ''!!invalid!!'')
   \<and> \<not> atob_rejects (js_str ''QUJD RA=='')
   \<and> base64ToUint8Array (js_str ''QUJD RA=='') [] = Inr (0, [[0x41, 0x42, 0x43, 0x44]])"
proof -
  note A = base64ToUint8Array_failure [of "js_str ''!!invalid!!''" "[]" "0x21"]
  note B = base64ToUint8Array_failure [of "js_str ''QUJD RA==''" "[]" "0x21"]
  have c: "0x21 \<in> set (js_str ''!!invalid!!'')" "0x21 \<notin> set base64_alphabet"
    "\<not> ascii_whitespace 0x21"
    by (simp_all add: js_str_def base64_alphabet_def ascii_whitespace_def)
  have r: "atob_rejects (js_str ''!!invalid!!'')"
    using A c by simp
  have a: "base64ToUint8Array (js_str ''!!invalid!!'') [] = Inl InvalidCharacterError"
    using A r by simp
  have n: "\<not> atob_rejects (js_str ''QUJD RA=='')"
    by (simp add: atob_rejects_def js_str_def ascii_whitespace_def remove_padding_def
      base64_alphabet_def)
  have d: "forgiving_base64_decode (js_str ''QUJD RA=='') = Some [0x41, 0x42, 0x43, 0x44]"
    by (simp add: forgiving_base64_decode_def js_str_def ascii_whitespace_def
        remove_padding_def base64_alphabet_def)
  have b: "base64ToUint8Array (js_str ''QUJD RA=='') [] = Inr (0, [[0x41, 0x42, 0x43, 0x44]])"
    using B n d by auto
  show ?thesis using a c r n b by simp
qed

section \<open>The claim about purity\<close>

lemma returned_bytes_fresh [simp]: "returned_bytes (Inr (length s, s @ [x])) = Inr x"
  by (simp add: returned_bytes_def)

lemma returned_bytes_Inl [simp]: "returned_bytes (Inl e) = Inl e"
  by (simp add: returned_bytes_def)

lemma returned_bytes_base64ToUint8Array:
  "returned_bytes (base64ToUint8Array base64 s) =
     (case forgiving_base64_decode base64 of
        None \<Rightarrow> Inl InvalidCharacterError | Some P \<Rightarrow> Inr P)"
  by (simp add: base64ToUint8Array_None base64ToUint8Array_Some split: option.splits)

lemma fst_pcmToWavBlob:
  "map_sum id fst (pcmToWavBlob base64Audio sampleRate s) =
     (case forgiving_base64_decode base64Audio of
        None \<Rightarrow> Inl InvalidCharacterError
      | Some P \<Rightarrow> Inr \<lparr>blob_bytes = spec_header (lit (length P)) (rate_of sampleRate) (lit 1) (lit 16) @ P,
                       blob_mime = js_str ''audio/wav''\<rparr>)"
  by (simp add: pcmToWavBlob_None pcmToWavBlob_Some split: option.splits)

text \<open>
  Claim C9. The decoder, the header builder and the assembler are deterministic and keep no
  state: what each returns (the exception, or the bytes of the returned array, or the
  blob) is the same in any two stores, so it depends on the arguments alone. They have no
  effect on what existed before the call: a call that returns leaves every buffer of the
  store as it was and only adds fresh buffers, the returned array being one of them.
\<close>

theorem operations_pure:
  "returned_bytes (base64ToUint8Array base64 s1) = returned_bytes (base64ToUint8Array base64 s2)
   \<and> returned_bytes (createWavHeader dataLength sampleRate numChannels bitsPerSample s1) =
       returned_bytes (createWavHeader dataLength sampleRate numChannels bitsPerSample s2)
   \<and> map_sum id fst (pcmToWavBlob base64 sampleRateArg s1) =
       map_sum id fst (pcmToWavBlob base64 sampleRateArg s2)
   \<and> (\<forall>a t. base64ToUint8Array base64 s = Inr (a, t) \<longrightarrow>
          length s \<le> a \<and> take (length s) t = s)
   \<and> (\<forall>a t. createWavHeader dataLength sampleRate numChannels bitsPerSample s = Inr (a, t) \<longrightarrow>
          length s \<le> a \<and> take (length s) t = s)
   \<and> (\<forall>b t. pcmToWavBlob base64 sampleRateArg s = Inr (b, t) \<longrightarrow> take (length s) t = s)"
proof (intro conjI allI impI)
  show "returned_bytes (base64ToUint8Array base64 s1) =
        returned_bytes (base64ToUint8Array base64 s2)"
    by (simp only: returned_bytes_base64ToUint8Array)
  show "returned_bytes (createWavHeader dataLength sampleRate numChannels bitsPerSample s1) =
       returned_bytes (createWavHeader dataLength sampleRate numChannels bitsPerSample s2)"
    by (simp only: createWavHeader_run returned_bytes_fresh)
  show "map_sum id fst (pcmToWavBlob base64 sampleRateArg s1) =
       map_sum id fst (pcmToWavBlob base64 sampleRateArg s2)"
    by (simp only: fst_pcmToWavBlob)
next
  fix a t
  assume "base64ToUint8Array base64 s = Inr (a, t)"
  then show "length s \<le> a" "take (length s) t = s"
    by (cases "forgiving_base64_decode base64";
        simp add: base64ToUint8Array_None base64ToUint8Array_Some; auto)+
next
  fix a t
  assume "createWavHeader dataLength sampleRate numChannels bitsPerSample s = Inr (a, t)"
  then show "length s \<le> a" "take (length s) t = s"
    by (auto simp add: createWavHeader_run)
next
  fix b t
  assume "pcmToWavBlob base64 sampleRateArg s = Inr (b, t)"
  then show "take (length s) t = s"
    by (cases "forgiving_base64_decode base64";
        simp add: pcmToWavBlob_None pcmToWavBlob_Some; auto)
qed

text \<open>Claim C9 at the input \<^verbatim>\<open>"QUJDRA=="\<close>, in the empty store and in a store that holds a
  buffer already.\<close>

theorem operations_pure_witness:
  "returned_bytes (base64ToUint8Array (js_str ''QUJDRA=='') []) =
     returned_bytes (base64ToUint8Array (js_str ''QUJDRA=='') [[1, 2, 3]])
   \<and> returned_bytes (createWavHeader (lit 4) (lit 24000) (lit 1) (lit 16) []) =
       returned_bytes (createWavHeader (lit 4) (lit 24000) (lit 1) (lit 16) [[1, 2, 3]])
   \<and> map_sum id fst (pcmToWavBlob (js_str ''QUJDRA=='') None []) =
       map_sum id fst (pcmToWavBlob (js_str ''QUJDRA=='') None [[1, 2, 3]])
   \<and> (\<exists>b t. pcmToWavBlob (js_str ''QUJDRA=='') None [[1, 2, 3]] = Inr (b, t)
         \<and> take 1 t = [[1, 2, 3]])"
proof -
  note T = operations_pure [of "js_str ''QUJDRA==''" "[]" "[[1, 2, 3]]" "lit 4" "lit 24000" "lit 1"
      "lit 16" None
      "[[1, 2, 3]]"]
  obtain b t where run: "pcmToWavBlob (js_str ''QUJDRA=='') None [[1, 2, 3]] = Inr (b, t)"
    using pcmToWavBlob_Some [OF decode_QUJDRA, of None "[[1, 2, 3]]"] by blast
  have "take (length [[1, 2, 3 :: u8]]) t = [[1, 2, 3]]"
    using T run by blast
  then have "take 1 t = [[1, 2, 3]]" by simp
  with run T show ?thesis by blast
qed

end
